theory Spec2Isabelle
  imports Complex_Main "HOL-Library.Product_Lexorder"
begin

section \<open>The persisted store\<close>

text \<open>
  The store of \<^verbatim>\<open>data/chat_database_manager.py\<close> is an SQLite file with the tables
  \<^verbatim>\<open>chat_sessions\<close> and \<^verbatim>\<open>chat_messages\<close>. A table is the list of its rows in rowid
  order: the \<^verbatim>\<open>id INTEGER PRIMARY KEY AUTOINCREMENT\<close> column of either table only ever
  grows, so a new row goes to the end of the list and the position of a row plays the
  part of its \<^verbatim>\<open>id\<close>. Columns the schema leaves nullable and the code tests for NULL are
  options. A point in time (\<^verbatim>\<open>datetime.now()\<close>, \<^verbatim>\<open>datetime('now')\<close>,
  \<^verbatim>\<open>CURRENT_TIMESTAMP\<close>) is an integer clock reading handed to each operation, larger
  meaning later.
\<close>

type_synonym datetime = int

text \<open>
  The column \<^verbatim>\<open>timestamp DATETIME\<close> of \<^verbatim>\<open>chat_messages\<close> has numeric affinity: a text
  that is a well-formed integer or real literal is stored as the number it denotes
  (\<^verbatim>\<open>'0930'\<close> as 930), any other text as it is. A literal is decimal digits with an
  optional sign, an optional point and an optional exponent, between optional white
  space; digits must stand before or after the point. \<open>Sql_number\<close> holds the literal the
  stored number was made of: rows made of the same literal hold the same number, and
  nothing is said here about rows made of different literals. The columns \<^verbatim>\<open>sender\<close>,
  \<^verbatim>\<open>sender_type\<close>, \<^verbatim>\<open>message_text\<close>, \<^verbatim>\<open>message_id\<close> and \<^verbatim>\<open>session_id\<close> are \<^verbatim>\<open>TEXT\<close>
  and keep the text they are given.
\<close>

datatype sql_value = Sql_text string | Sql_number string

definition sql_space :: "char \<Rightarrow> bool" where
  "sql_space c = (c \<in> set [CHR '' '', CHR 0x09, CHR 0x0A, CHR 0x0B, CHR 0x0C, CHR 0x0D])"

definition decimal_digit :: "char \<Rightarrow> bool" where
  "decimal_digit c = (c \<in> set ''0123456789'')"

definition without_sign :: "string \<Rightarrow> string" where
  "without_sign s =
     (case s of
        [] \<Rightarrow> []
      | c # cs \<Rightarrow> if c = CHR ''+'' \<or> c = CHR ''-'' then cs else s)"

definition exponent_part :: "string \<Rightarrow> bool" where
  "exponent_part s =
     (case s of
        [] \<Rightarrow> True
      | c # cs \<Rightarrow> (c = CHR ''e'' \<or> c = CHR ''E'')
                  \<and> without_sign cs \<noteq> [] \<and> list_all decimal_digit (without_sign cs))"

definition numeric_literal :: "string \<Rightarrow> bool" where
  "numeric_literal s =
     (let body = without_sign (dropWhile sql_space (rev (dropWhile sql_space (rev s))));
          whole = takeWhile decimal_digit body;
          after = dropWhile decimal_digit body
      in case after of
           [] \<Rightarrow> whole \<noteq> []
         | c # cs \<Rightarrow>
             if c = CHR ''.''
             then (whole \<noteq> [] \<or> takeWhile decimal_digit cs \<noteq> [])
                  \<and> exponent_part (dropWhile decimal_digit cs)
             else whole \<noteq> [] \<and> exponent_part after)"

definition numeric_affinity :: "string \<Rightarrow> sql_value" where
  "numeric_affinity s = (if numeric_literal s then Sql_number s else Sql_text s)"

record chat_session =
  session_id :: string
  chat_platform :: "string option"
  chat_title :: "string option"
  participant_name :: "string option"
  chat_url :: "string option"
  started_at :: datetime
  last_activity :: datetime
  total_messages :: int
  status :: "string option"
  phase :: "string option"
  phase_confidence :: "real option"
  phase_updated_at :: "datetime option"
  created_at :: datetime

record chat_message =
  m_session_id :: string
  message_id :: string
  sender :: string
  sender_type :: string
  message_text :: string
  timestamp :: sql_value
  message_order :: int
  scraped_at :: datetime

record store =
  chat_sessions :: "chat_session list"
  chat_messages :: "chat_message list"

text \<open>The exceptions the modelled code can meet: a missing dictionary key and a violated
  \<^verbatim>\<open>UNIQUE\<close> constraint.\<close>

datatype error = KeyError | IntegrityError

text \<open>
  Modelled from the spec: \<^verbatim>\<open>ChatDatabase.get_connection\<close>, which
  \<^verbatim>\<open>ChatParser.chat_session_exists\<close> and \<^verbatim>\<open>ChatParser.update_existing_session\<close> call and
  \<^verbatim>\<open>chat_database_manager.py\<close> does not define. It stands for the handle on the single
  shared persisted store that every method of \<^verbatim>\<open>ChatDatabase\<close> opens with
  \<^verbatim>\<open>sqlite3.connect(self.db_path)\<close>; with the store passed explicitly the handle is the
  store itself.
\<close>

definition get_connection :: "store \<Rightarrow> store" where
  "get_connection st = st"

section \<open>Sessions: \<^verbatim>\<open>save_chat_session\<close> and \<^verbatim>\<open>update_session_phase\<close>\<close>

text \<open>The dictionary \<^verbatim>\<open>session_data\<close>: a key that is absent is \<open>None\<close>.\<close>

record session_data =
  sd_session_id :: "string option"
  sd_platform :: "string option"
  sd_title :: "string option"
  sd_participant :: "string option"
  sd_url :: "string option"
  sd_started_at :: "datetime option"
  sd_total_messages :: "int option"

definition dict_get :: "'a option \<Rightarrow> 'a \<Rightarrow> 'a" where
  "dict_get v d = (case v of None \<Rightarrow> d | Some x \<Rightarrow> x)"

text \<open>The row that \<^verbatim>\<open>INSERT OR REPLACE\<close> writes: the nine listed columns from the
  dictionary, the three phase columns NULL, \<^verbatim>\<open>created_at\<close> by its default.\<close>

definition new_session_row :: "string \<Rightarrow> session_data \<Rightarrow> datetime \<Rightarrow> chat_session" where
  "new_session_row sid sd now =
     \<lparr> session_id = sid,
       chat_platform = Some (dict_get (sd_platform sd) ''unknown''),
       chat_title = Some (dict_get (sd_title sd) ''Unknown Chat''),
       participant_name = Some (dict_get (sd_participant sd) ''Unknown''),
       chat_url = Some (dict_get (sd_url sd) ''''),
       started_at = dict_get (sd_started_at sd) now,
       last_activity = now,
       total_messages = dict_get (sd_total_messages sd) 0,
       status = Some ''active'',
       phase = None,
       phase_confidence = None,
       phase_updated_at = None,
       created_at = now \<rparr>"

text \<open>\<^verbatim>\<open>INSERT OR REPLACE\<close> on the \<^verbatim>\<open>UNIQUE\<close> column \<^verbatim>\<open>session_id\<close>: the rows in conflict
  are deleted, then the new row is inserted. \<^verbatim>\<open>session_data['session_id']\<close> raises
  \<^verbatim>\<open>KeyError\<close> when the key is absent.\<close>

definition save_chat_session :: "store \<Rightarrow> session_data \<Rightarrow> datetime \<Rightarrow> error + store \<times> string" where
  "save_chat_session st sd now =
     (case sd_session_id sd of
        None \<Rightarrow> Inl KeyError
      | Some sid \<Rightarrow>
          Inr (st\<lparr>chat_sessions :=
                   filter (\<lambda>s. session_id s \<noteq> sid) (chat_sessions st) @ [new_session_row sid sd now]\<rparr>,
               sid))"

definition update_session_phase :: "store \<Rightarrow> string \<Rightarrow> string \<Rightarrow> real \<Rightarrow> datetime \<Rightarrow> store \<times> bool" where
  "update_session_phase st sid ph confidence now =
     (st\<lparr>chat_sessions :=
           map (\<lambda>s. if session_id s = sid
                     then s\<lparr>phase := Some ph, phase_confidence := Some confidence,
                            phase_updated_at := Some now\<rparr>
                     else s) (chat_sessions st)\<rparr>,
      filter (\<lambda>s. session_id s = sid) (chat_sessions st) \<noteq> [])"

definition session_rows :: "store \<Rightarrow> string \<Rightarrow> chat_session list" where
  "session_rows st sid = filter (\<lambda>s. session_id s = sid) (chat_sessions st)"

section \<open>Message keys\<close>

text \<open>\<^verbatim>\<open>f"{session_id}_{max_order}"\<close>: the decimal rendering of a Python integer after the
  session id and an underscore.\<close>

definition digit_char :: "nat \<Rightarrow> char" where
  "digit_char d = ''0123456789'' ! d"

function str_nat :: "nat \<Rightarrow> string" where
  "str_nat n = (if n < 10 then [digit_char n] else str_nat (n div 10) @ [digit_char (n mod 10)])"
  by pat_completeness auto
termination
  by (relation "measure id") auto

declare str_nat.simps [simp del]

definition str_int :: "int \<Rightarrow> string" where
  "str_int i = (if i < 0 then CHR ''-'' # str_nat (nat (- i)) else str_nat (nat i))"

definition derived_message_id :: "string \<Rightarrow> int \<Rightarrow> string" where
  "derived_message_id sid k = sid @ ''_'' @ str_int k"

section \<open>Queries shared by the ingestor and the reconciler\<close>

definition session_messages :: "store \<Rightarrow> string \<Rightarrow> chat_message list" where
  "session_messages st sid = filter (\<lambda>m. m_session_id m = sid) (chat_messages st)"

text \<open>\<^verbatim>\<open>SELECT COALESCE(MAX(message_order), 0) FROM chat_messages WHERE session_id = ?\<close>\<close>

definition max_message_order :: "store \<Rightarrow> string \<Rightarrow> int" where
  "max_message_order st sid =
     (let os = map message_order (session_messages st sid)
      in if os = [] then 0 else Max (set os))"

text \<open>\<^verbatim>\<open>SELECT COUNT(*) FROM chat_messages WHERE session_id = ?\<close>\<close>

definition message_count :: "store \<Rightarrow> string \<Rightarrow> int" where
  "message_count st sid = int (length (session_messages st sid))"

text \<open>\<^verbatim>\<open>SELECT id FROM chat_messages WHERE session_id = ? AND sender = ? AND message_text = ?
  LIMIT 1\<close>, read for whether it returns a row.\<close>

definition message_exists :: "store \<Rightarrow> string \<Rightarrow> string \<Rightarrow> string \<Rightarrow> bool" where
  "message_exists st sid sndr txt =
     (filter (\<lambda>m. m_session_id m = sid \<and> sender m = sndr \<and> message_text m = txt)
        (chat_messages st) \<noteq> [])"

text \<open>A plain \<^verbatim>\<open>INSERT INTO chat_messages\<close>: the \<^verbatim>\<open>UNIQUE\<close> constraint on \<^verbatim>\<open>message_id\<close>
  raises when the key is already stored.\<close>

definition insert_message :: "store \<Rightarrow> chat_message \<Rightarrow> error + store" where
  "insert_message st row =
     (if message_id row \<in> set (map message_id (chat_messages st)) then Inl IntegrityError
      else Inr (st\<lparr>chat_messages := chat_messages st @ [row]\<rparr>))"

text \<open>\<^verbatim>\<open>UPDATE chat_sessions SET last_activity = datetime('now'), total_messages = (SELECT
  COUNT(*) ...) WHERE session_id = ?\<close>, the statement that ends both the ingest and the
  merge.\<close>

definition refresh_rollup :: "store \<Rightarrow> string \<Rightarrow> datetime \<Rightarrow> store" where
  "refresh_rollup st sid now =
     st\<lparr>chat_sessions :=
          map (\<lambda>s. if session_id s = sid
                    then s\<lparr>last_activity := now, total_messages := message_count st sid\<rparr>
                    else s) (chat_sessions st)\<rparr>"

section \<open>The message batch\<close>

text \<open>A message of a batch is the dictionary built by \<^verbatim>\<open>_extract_message_data\<close>; a key
  that is absent is \<open>None\<close>. The keys \<^verbatim>\<open>platform\<close> and \<^verbatim>\<open>html_snippet\<close> are never read
  by the code below.\<close>

record raw_message =
  r_text :: "string option"
  r_sender :: "string option"
  r_timestamp :: "string option"
  r_sender_type :: "string option"
  r_message_id :: "string option"
  r_order :: "int option"

section \<open>Session resolver: \<^verbatim>\<open>ChatParser.chat_session_exists\<close>\<close>

text \<open>\<^verbatim>\<open>ORDER BY total_messages DESC, last_activity DESC LIMIT 1\<close> is a stable sort on the
  negated pair, of which the first row is taken. The function only reads; it hands back
  the store with the answer so that this can be said.\<close>

definition session_matches :: "string \<Rightarrow> string \<Rightarrow> string \<Rightarrow> chat_session \<Rightarrow> bool" where
  "session_matches platform title participant s =
     (chat_platform s = Some platform \<and> chat_title s = Some title
      \<and> participant_name s = Some participant)"

definition by_size_then_recency :: "chat_session list \<Rightarrow> chat_session list" where
  "by_size_then_recency rows = sort_key (\<lambda>s. (- total_messages s, - last_activity s)) rows"

definition chat_session_exists :: "store \<Rightarrow> string \<Rightarrow> string \<Rightarrow> string \<Rightarrow> string option \<times> store" where
  "chat_session_exists st platform title participant =
     (let conn = get_connection st
      in case by_size_then_recency
                (filter (session_matches platform title participant) (chat_sessions conn)) of
           [] \<Rightarrow> (None, st)
         | row # _ \<Rightarrow> (Some (session_id row), st))"

section \<open>Message ingestor: \<^verbatim>\<open>ChatParser.update_existing_session\<close>\<close>

text \<open>The loop over the batch carries the store, \<^verbatim>\<open>max_order\<close> and \<^verbatim>\<open>saved_count\<close>.
  \<^verbatim>\<open>msg['sender']\<close> and \<^verbatim>\<open>msg['text']\<close> are read for the duplicate check, outside the
  \<^verbatim>\<open>try\<close>: a missing key ends the call with \<^verbatim>\<open>KeyError\<close>. \<^verbatim>\<open>msg['sender_type']\<close> and
  \<^verbatim>\<open>msg['timestamp']\<close> are read inside the \<^verbatim>\<open>try\<close>, after \<^verbatim>\<open>max_order\<close> was
  incremented: a missing key, like a failed insert, is caught and the loop goes on.\<close>

fun ingest_loop :: "string \<Rightarrow> datetime \<Rightarrow> raw_message list \<Rightarrow> store \<times> int \<times> nat
    \<Rightarrow> error + store \<times> int \<times> nat" where
  "ingest_loop sid now [] acc = Inr acc"
| "ingest_loop sid now (msg # rest) (st, max_order, saved_count) =
     (case (r_sender msg, r_text msg) of
        (Some sndr, Some txt) \<Rightarrow>
          if message_exists st sid sndr txt
          then ingest_loop sid now rest (st, max_order, saved_count)
          else
            (case (r_sender_type msg, r_timestamp msg) of
               (Some sty, Some ts) \<Rightarrow>
                 (case insert_message st
                         \<lparr> m_session_id = sid,
                           message_id = derived_message_id sid (max_order + 1),
                           sender = sndr, sender_type = sty, message_text = txt,
                           timestamp = numeric_affinity ts, message_order = max_order + 1,
                           scraped_at = now \<rparr> of
                    Inr st' \<Rightarrow> ingest_loop sid now rest (st', max_order + 1, saved_count + 1)
                  | Inl e \<Rightarrow> ingest_loop sid now rest (st, max_order + 1, saved_count))
             | _ \<Rightarrow> ingest_loop sid now rest (st, max_order + 1, saved_count))
      | _ \<Rightarrow> Inl KeyError)"

text \<open>An exception leaves the call before \<^verbatim>\<open>conn.commit()\<close>: nothing of the call is
  stored, and the caller keeps the store it had.\<close>

definition update_existing_session :: "store \<Rightarrow> string \<Rightarrow> raw_message list \<Rightarrow> datetime
    \<Rightarrow> error + store \<times> nat" where
  "update_existing_session st sid new_messages now =
     (let conn = get_connection st
      in case ingest_loop sid now new_messages (conn, max_message_order conn sid, 0) of
           Inl e \<Rightarrow> Inl e
         | Inr (st', _, saved_count) \<Rightarrow> Inr (refresh_rollup st' sid now, saved_count))"

section \<open>Session creation: \<^verbatim>\<open>save_chat_messages\<close> and \<^verbatim>\<open>ChatParser.save_to_database\<close>\<close>

text \<open>\<^verbatim>\<open>INSERT OR IGNORE\<close>: a row whose \<^verbatim>\<open>message_id\<close> is already stored is dropped and
  \<^verbatim>\<open>rowcount\<close> is 0. All six keys are read inside the \<^verbatim>\<open>try\<close>.\<close>

fun save_chat_messages_loop :: "string \<Rightarrow> datetime \<Rightarrow> raw_message list \<Rightarrow> store \<times> nat
    \<Rightarrow> store \<times> nat" where
  "save_chat_messages_loop sid now [] acc = acc"
| "save_chat_messages_loop sid now (msg # rest) (st, saved_count) =
     (case (r_message_id msg, r_sender msg, r_sender_type msg, r_text msg, r_timestamp msg,
            r_order msg) of
        (Some mid, Some sndr, Some sty, Some txt, Some ts, Some pos) \<Rightarrow>
          (case insert_message st
                  \<lparr> m_session_id = sid, message_id = mid, sender = sndr, sender_type = sty,
                    message_text = txt, timestamp = numeric_affinity ts,
                    message_order = pos,
                    scraped_at = now \<rparr> of
             Inr st' \<Rightarrow> save_chat_messages_loop sid now rest (st', saved_count + 1)
           | Inl e \<Rightarrow> save_chat_messages_loop sid now rest (st, saved_count))
      | _ \<Rightarrow> save_chat_messages_loop sid now rest (st, saved_count))"

definition save_chat_messages :: "store \<Rightarrow> string \<Rightarrow> raw_message list \<Rightarrow> datetime \<Rightarrow> store \<times> nat" where
  "save_chat_messages st sid messages now =
     save_chat_messages_loop sid now messages (st, 0)"

text \<open>\<^verbatim>\<open>str.title()\<close> on ASCII text: a letter that follows a letter is lowered, any other
  letter is raised; a character that is not an ASCII letter is kept and ends the word.\<close>

definition ascii_lower :: string where
  "ascii_lower = ''abcdefghijklmnopqrstuvwxyz''"

definition ascii_upper :: string where
  "ascii_upper = ''ABCDEFGHIJKLMNOPQRSTUVWXYZ''"

fun title_from :: "bool \<Rightarrow> string \<Rightarrow> string" where
  "title_from previous_is_cased [] = []"
| "title_from previous_is_cased (c # cs) =
     (case map_of (zip ascii_lower ascii_upper) c of
        Some u \<Rightarrow> (if previous_is_cased then c else u) # title_from True cs
      | None \<Rightarrow>
          (case map_of (zip ascii_upper ascii_lower) c of
             Some l \<Rightarrow> (if previous_is_cased then l else c) # title_from True cs
           | None \<Rightarrow> c # title_from False cs))"

definition py_title :: "string \<Rightarrow> string" where
  "py_title s = title_from False s"

text \<open>\<^verbatim>\<open>enumerate(messages)\<close> with \<^verbatim>\<open>message['order'] = i + 1\<close>.\<close>

fun set_orders :: "int \<Rightarrow> raw_message list \<Rightarrow> raw_message list" where
  "set_orders i [] = []"
| "set_orders i (message # rest) = message\<lparr>r_order := Some (i + 1)\<rparr> # set_orders (i + 1) rest"

text \<open>\<^verbatim>\<open>session_id\<close> is the optional argument (an empty string is as good as none);
  \<^verbatim>\<open>stamp\<close> is \<^verbatim>\<open>datetime.now().strftime('%Y%m%d_%H%M%S')\<close>. An exception of
  \<^verbatim>\<open>save_chat_session\<close> is printed and the messages are saved all the same.\<close>

definition save_to_database :: "store \<Rightarrow> raw_message list \<Rightarrow> string \<Rightarrow> string option \<Rightarrow> string
    \<Rightarrow> datetime \<Rightarrow> store \<times> string" where
  "save_to_database st messages platform session_id_arg stamp now =
     (let sid = (case session_id_arg of
                   None \<Rightarrow> platform @ ''_'' @ stamp
                 | Some given \<Rightarrow> if given = [] then platform @ ''_'' @ stamp else given);
          session_data = \<lparr> sd_session_id = Some sid,
                           sd_platform = Some platform,
                           sd_title = Some (py_title platform @ '' Chat Session''),
                           sd_participant = Some ''Unknown'',
                           sd_url = Some [],
                           sd_started_at = Some now,
                           sd_total_messages = Some (int (length messages)) \<rparr>;
          st1 = (case save_chat_session st session_data now of
                   Inr (st', _) \<Rightarrow> st'
                 | Inl e \<Rightarrow> st)
      in (fst (save_chat_messages st1 sid (set_orders 0 messages) now), sid))"

section \<open>\<^verbatim>\<open>ChatParser.process_incremental\<close>\<close>

text \<open>\<^verbatim>\<open>list(senders)[0]\<close> takes the first element of a Python set in its iteration
  order, which the language leaves open: \<open>first_of\<close> is that choice, given the senders
  collected.\<close>

definition extract_participant_name :: "(string list \<Rightarrow> string) \<Rightarrow> string \<Rightarrow> raw_message list \<Rightarrow> string" where
  "extract_participant_name first_of platform messages =
     (let senders = remdups
            (filter (\<lambda>s. s \<notin> set [''unknown'', ''user'', ''me'', ''you''] \<and> length s < 50)
               (map (\<lambda>msg. dict_get (r_sender msg) ''unknown'') (take 10 messages)))
      in if senders \<noteq> [] then first_of senders else ''Unknown Participant'')"

datatype incremental_result =
    NoMessagesFound
  | IncrementalUpdate string nat nat
  | NewSession string nat
  | ParsingFailed error

text \<open>The parsed file, \<^verbatim>\<open>(messages, platform)\<close>, is the input: \<^verbatim>\<open>parse_html_file\<close> is
  the scraper side. The \<^verbatim>\<open>except\<close> clause turns an exception of the update into an error
  result.\<close>

definition process_incremental :: "(string list \<Rightarrow> string) \<Rightarrow> store \<Rightarrow> raw_message list \<Rightarrow> string
    \<Rightarrow> string \<Rightarrow> datetime \<Rightarrow> incremental_result \<times> store" where
  "process_incremental first_of st messages platform stamp now =
     (if messages = [] then (NoMessagesFound, st)
      else
        let participant = extract_participant_name first_of platform messages;
            title = py_title platform @ '' Chat with '' @ participant;
            existing_session_id = fst (chat_session_exists st platform title participant)
        in case existing_session_id of
             Some sid \<Rightarrow>
               if sid \<noteq> [] then
                 (case update_existing_session st sid messages now of
                    Inr (st', new_count) \<Rightarrow>
                      (IncrementalUpdate sid new_count (length messages), st')
                  | Inl e \<Rightarrow> (ParsingFailed e, st))
               else
                 (let (st', new_sid) = save_to_database st messages platform None stamp now
                  in (NewSession new_sid (length messages), st'))
           | None \<Rightarrow>
               (let (st', new_sid) = save_to_database st messages platform None stamp now
                in (NewSession new_sid (length messages), st')))"

section \<open>Duplicate session reconciler\<close>

subsection \<open>\<^verbatim>\<open>find_duplicate_chat_sessions\<close>\<close>

text \<open>\<^verbatim>\<open>GROUP_CONCAT\<close> joins the session ids of a group with commas and
  \<^verbatim>\<open>ids_str.split(',')\<close> cuts the joined text at every comma.\<close>

fun join_with :: "char \<Rightarrow> string list \<Rightarrow> string" where
  "join_with c [] = []"
| "join_with c [x] = x"
| "join_with c (x # y # ys) = x @ c # join_with c (y # ys)"

fun py_split :: "char \<Rightarrow> string \<Rightarrow> string list" where
  "py_split c [] = [[]]"
| "py_split c (x # xs) =
     (if x = c then [] # py_split c xs
      else (case py_split c xs of
              w # ws \<Rightarrow> (x # w) # ws
            | [] \<Rightarrow> [[x]]))"

type_synonym fingerprint = "string option \<times> string option \<times> string option"

definition fingerprint_of :: "chat_session \<Rightarrow> fingerprint" where
  "fingerprint_of s = (chat_platform s, chat_title s, participant_name s)"

record duplicate_group =
  dg_fingerprint :: fingerprint
  duplicate_count :: nat
  session_ids :: "string list"
  message_counts :: "int list"
  keep_session :: string
  remove_sessions :: "string list"

text \<open>The rows the \<^verbatim>\<open>WHERE\<close> clause lets through.\<close>

definition groupable_sessions :: "store \<Rightarrow> chat_session list" where
  "groupable_sessions st =
     filter (\<lambda>s. chat_platform s \<noteq> None \<and> participant_name s \<noteq> None) (chat_sessions st)"

definition group_members :: "store \<Rightarrow> fingerprint \<Rightarrow> chat_session list" where
  "group_members st fp = filter (\<lambda>s. fingerprint_of s = fp) (groupable_sessions st)"

text \<open>One result row of the query, as the loop over \<^verbatim>\<open>cursor.fetchall()\<close> reads it. The
  counts are joined and split like the ids; decimal numerals hold no comma, so the list of
  counts is taken as it is.\<close>

definition group_row :: "store \<Rightarrow> fingerprint \<Rightarrow> duplicate_group" where
  "group_row st fp =
     (let members = by_size_then_recency (group_members st fp);
          ids = py_split CHR '','' (join_with CHR '','' (map session_id members))
      in \<lparr> dg_fingerprint = fp,
           duplicate_count = length members,
           session_ids = ids,
           message_counts = map total_messages members,
           keep_session = hd ids,
           remove_sessions = tl ids \<rparr>)"

text \<open>\<^verbatim>\<open>GROUP BY ... HAVING COUNT(*) > 1 ORDER BY COUNT(*) DESC\<close>: the groups in the order
  of their first member, sorted stably by falling size.\<close>

definition find_duplicate_chat_sessions :: "store \<Rightarrow> duplicate_group list" where
  "find_duplicate_chat_sessions st =
     sort_key (\<lambda>g. - int (duplicate_count g))
       (map (group_row st)
          (filter (\<lambda>fp. length (group_members st fp) > 1)
             (remdups (map fingerprint_of (groupable_sessions st)))))"

subsection \<open>\<^verbatim>\<open>merge_chat_sessions\<close>\<close>

record merge_stats =
  messages_merged :: nat
  duplicate_messages_skipped :: nat
  sessions_removed :: nat
  total_messages_before :: int
  total_messages_after :: int

fun merge_messages :: "string \<Rightarrow> chat_message list \<Rightarrow> store \<times> int \<times> merge_stats
    \<Rightarrow> store \<times> int \<times> merge_stats" where
  "merge_messages keep [] acc = acc"
| "merge_messages keep (msg # rest) (st, max_order, stats) =
     (if message_exists st keep (sender msg) (message_text msg)
      then merge_messages keep rest
             (st, max_order,
              stats\<lparr>duplicate_messages_skipped := duplicate_messages_skipped stats + 1\<rparr>)
      else
        (case insert_message st
                \<lparr> m_session_id = keep,
                  message_id = derived_message_id keep (max_order + 1),
                  sender = sender msg, sender_type = sender_type msg,
                  message_text = message_text msg, timestamp = timestamp msg,
                  message_order = max_order + 1, scraped_at = scraped_at msg \<rparr> of
           Inr st' \<Rightarrow> merge_messages keep rest
                        (st', max_order + 1, stats\<lparr>messages_merged := messages_merged stats + 1\<rparr>)
         | Inl e \<Rightarrow> merge_messages keep rest (st, max_order + 1, stats)))"

text \<open>The two \<^verbatim>\<open>DELETE\<close> statements that end the turn of one session to remove.\<close>

definition delete_session :: "store \<Rightarrow> string \<Rightarrow> store" where
  "delete_session st sid =
     st\<lparr>chat_messages := filter (\<lambda>m. m_session_id m \<noteq> sid) (chat_messages st),
        chat_sessions := filter (\<lambda>s. session_id s \<noteq> sid) (chat_sessions st)\<rparr>"

fun merge_sessions :: "string \<Rightarrow> string list \<Rightarrow> store \<times> int \<times> merge_stats
    \<Rightarrow> store \<times> int \<times> merge_stats" where
  "merge_sessions keep [] acc = acc"
| "merge_sessions keep (remove_session_id # rest) (st, max_order, stats) =
     (let messages_to_merge = sort_key message_order (session_messages st remove_session_id);
          (st1, max_order1, stats1) = merge_messages keep messages_to_merge (st, max_order, stats)
      in merge_sessions keep rest
           (delete_session st1 remove_session_id, max_order1,
            stats1\<lparr>sessions_removed := sessions_removed stats1 + 1\<rparr>))"

definition merge_chat_sessions :: "store \<Rightarrow> string \<Rightarrow> string list \<Rightarrow> datetime \<Rightarrow> store \<times> merge_stats" where
  "merge_chat_sessions st keep_session_id remove_session_ids now =
     (let stats = \<lparr> messages_merged = 0, duplicate_messages_skipped = 0, sessions_removed = 0,
                    total_messages_before = message_count st keep_session_id,
                    total_messages_after = 0 \<rparr>;
          (st1, _, stats1) = merge_sessions keep_session_id remove_session_ids
                               (st, max_message_order st keep_session_id, stats);
          st2 = refresh_rollup st1 keep_session_id now
      in (st2, stats1\<lparr>total_messages_after := message_count st2 keep_session_id\<rparr>))"

subsection \<open>\<^verbatim>\<open>cleanup_duplicate_chat_sessions\<close>\<close>

text \<open>The summary dictionary; the key \<^verbatim>\<open>groups_processed\<close> is absent from the summary of a
  run that found nothing.\<close>

record cleanup_stats =
  duplicate_groups_found :: nat
  total_sessions_removed :: nat
  total_messages_merged :: nat
  total_duplicate_messages_skipped :: nat
  groups_processed :: "nat option"
  success :: bool

fun merge_groups :: "datetime \<Rightarrow> duplicate_group list \<Rightarrow> store \<times> cleanup_stats \<Rightarrow> store \<times> cleanup_stats" where
  "merge_groups now [] acc = acc"
| "merge_groups now (g # rest) (st, total_stats) =
     (let (st', ms) = merge_chat_sessions st (keep_session g) (remove_sessions g) now
      in merge_groups now rest
           (st',
            total_stats\<lparr>total_sessions_removed :=
                          total_sessions_removed total_stats + sessions_removed ms,
                        total_messages_merged :=
                          total_messages_merged total_stats + messages_merged ms,
                        total_duplicate_messages_skipped :=
                          total_duplicate_messages_skipped total_stats
                          + duplicate_messages_skipped ms,
                        groups_processed := map_option (\<lambda>n. n + 1) (groups_processed total_stats)\<rparr>))"

definition cleanup_duplicate_chat_sessions :: "store \<Rightarrow> datetime \<Rightarrow> store \<times> cleanup_stats" where
  "cleanup_duplicate_chat_sessions st now =
     (let duplicate_groups = find_duplicate_chat_sessions st
      in if duplicate_groups = [] then
           (st, \<lparr> duplicate_groups_found = 0, total_sessions_removed = 0,
                  total_messages_merged = 0, total_duplicate_messages_skipped = 0,
                  groups_processed = None, success = True \<rparr>)
         else
           merge_groups now duplicate_groups
             (st, \<lparr> duplicate_groups_found = length duplicate_groups,
                    total_sessions_removed = 0, total_messages_merged = 0,
                    total_duplicate_messages_skipped = 0, groups_processed = Some 0,
                    success = True \<rparr>))"

section \<open>Notions the properties are stated with\<close>

text \<open>A stored row carries the sender, role and text of a batch message, and its timestamp
  as the column stores it.\<close>

definition from_message :: "raw_message \<Rightarrow> chat_message \<Rightarrow> bool" where
  "from_message msg row =
     (r_sender msg = Some (sender row) \<and> r_text msg = Some (message_text row)
      \<and> r_sender_type msg = Some (sender_type row)
      \<and> map_option numeric_affinity (r_timestamp msg) = Some (timestamp row))"

text \<open>The resolver as the specification words it: only sessions whose status is
  \<open>active\<close> are searched.\<close>

definition active_matches :: "store \<Rightarrow> string \<Rightarrow> string \<Rightarrow> string \<Rightarrow> chat_session list" where
  "active_matches st platform title participant =
     filter (\<lambda>s. status s = Some ''active'' \<and> session_matches platform title participant s)
       (chat_sessions st)"

section \<open>Example stores and batches\<close>

definition example_session :: "string \<Rightarrow> string \<Rightarrow> string \<Rightarrow> string \<Rightarrow> int \<Rightarrow> datetime \<Rightarrow> chat_session" where
  "example_session sid platform title participant n t =
     \<lparr> session_id = sid, chat_platform = Some platform, chat_title = Some title,
       participant_name = Some participant, chat_url = Some [], started_at = 0,
       last_activity = t, total_messages = n, status = Some ''active'', phase = None,
       phase_confidence = None, phase_updated_at = None, created_at = 0 \<rparr>"

definition example_message :: "string \<Rightarrow> string \<Rightarrow> string \<Rightarrow> string \<Rightarrow> raw_message" where
  "example_message who txt ts mid =
     \<lparr> r_text = Some txt, r_sender = Some who, r_timestamp = Some ts,
       r_sender_type = Some ''unknown'', r_message_id = Some mid, r_order = Some 0 \<rparr>"

definition empty_store :: store where
  "empty_store = \<lparr> chat_sessions = [], chat_messages = [] \<rparr>"

definition phased_store :: store where
  "phased_store =
     fst (update_session_phase
            \<lparr> chat_sessions =
                 [example_session ''s1'' ''upwork'' ''Upwork Chat Session'' ''Unknown'' 3 5],
              chat_messages = [] \<rparr>
            ''s1'' ''negotiation'' (9 / 10) 7)"

definition resave_data :: session_data where
  "resave_data = \<lparr> sd_session_id = Some ''s1'', sd_platform = Some ''upwork'',
       sd_title = None, sd_participant = None, sd_url = None, sd_started_at = None,
       sd_total_messages = None \<rparr>"

definition one_session_store :: store where
  "one_session_store =
     \<lparr> chat_sessions = [example_session ''s1'' ''upwork'' ''Upwork Chat with Maria'' ''Maria'' 0 5],
        chat_messages = [] \<rparr>"

definition no_timestamp_batch :: "raw_message list" where
  "no_timestamp_batch =
     [example_message ''Maria'' ''hello'' ''10:30'' ''m1'',
      (example_message ''Maria'' ''are you there'' ''10:31'' ''m2'')\<lparr>r_timestamp := None\<rparr>]"

definition no_sender_batch :: "raw_message list" where
  "no_sender_batch =
     [example_message ''Maria'' ''hello'' ''10:30'' ''m1'',
      (example_message ''Maria'' ''are you there'' ''10:31'' ''m2'')\<lparr>r_sender := None\<rparr>]"

definition repeated_batch :: "raw_message list" where
  "repeated_batch =
     [example_message ''Maria'' ''ok'' ''10:30'' ''upwork_77_10:30'',
      example_message ''Maria'' ''ok'' ''10:30'' ''upwork_77_10:30'']"

definition first_scrape :: "raw_message list" where
  "first_scrape =
     [example_message ''Maria'' ''Hi, are you available?'' ''09:00'' ''upwork_101_09:00'',
      example_message ''me'' ''Yes, I am'' ''09:01'' ''upwork_102_09:01'',
      example_message ''Maria'' ''Great, here is the brief'' ''09:02'' ''upwork_103_09:02'',
      example_message ''me'' ''Thanks, reading it now'' ''09:03'' ''upwork_104_09:03'',
      example_message ''Maria'' ''Take your time'' ''09:04'' ''upwork_105_09:04'']"

definition second_scrape :: "raw_message list" where
  "second_scrape =
     [example_message ''Maria'' ''Hi, are you available?'' ''09:00'' ''upwork_901_09:00'',
      example_message ''me'' ''Yes, I am'' ''09:01'' ''upwork_902_09:01'',
      example_message ''Maria'' ''Great, here is the brief'' ''09:02'' ''upwork_903_09:02'',
      example_message ''me'' ''Thanks, reading it now'' ''09:03'' ''upwork_904_09:03'',
      example_message ''Maria'' ''Take your time'' ''09:04'' ''upwork_905_09:04'',
      example_message ''me'' ''I can start on Monday'' ''09:08'' ''upwork_906_09:08'',
      example_message ''Maria'' ''Perfect'' ''09:09'' ''upwork_907_09:09'']"

text \<open>Within every session the order positions rise strictly along the rows, the order
  in which the rows were appended.\<close>

definition order_monotone :: "store \<Rightarrow> bool" where
  "order_monotone st =
     list_all (\<lambda>sid. sorted_wrt (<) (map message_order (session_messages st sid)))
       (remdups (map m_session_id (chat_messages st)))"

text \<open>A row written by the merge carries the sender, role, text, conversational timestamp
  and ingestion timestamp of the row it was read from.\<close>

definition same_content :: "chat_message \<Rightarrow> chat_message \<Rightarrow> bool" where
  "same_content a b =
     (sender a = sender b \<and> sender_type a = sender_type b \<and> message_text a = message_text b
      \<and> timestamp a = timestamp b \<and> scraped_at a = scraped_at b)"


text \<open>The dedup key of a stored row and of a batch message, and the keys a session holds.\<close>

definition dedup_key :: "chat_message \<Rightarrow> string \<times> string" where
  "dedup_key row = (sender row, message_text row)"

definition dedup_keys :: "store \<Rightarrow> string \<Rightarrow> (string \<times> string) list" where
  "dedup_keys st sid = map dedup_key (session_messages st sid)"

fun batch_keys :: "raw_message list \<Rightarrow> (string \<times> string) list" where
  "batch_keys [] = []"
| "batch_keys (msg # rest) =
     (case (r_sender msg, r_text msg) of
        (Some s, Some t) \<Rightarrow> (s, t) # batch_keys rest
      | _ \<Rightarrow> batch_keys rest)"

text \<open>A batch as the data contract has it: every message carries sender, sender role, text
  and timestamp.\<close>

definition complete_message :: "raw_message \<Rightarrow> bool" where
  "complete_message msg =
     (r_sender msg \<noteq> None \<and> r_sender_type msg \<noteq> None \<and> r_text msg \<noteq> None
      \<and> r_timestamp msg \<noteq> None)"

definition complete_batch :: "raw_message list \<Rightarrow> bool" where
  "complete_batch batch = list_all complete_message batch"

text \<open>The genuinely new keys of a batch, in batch order: the first occurrence of every key
  that is not among the keys seen.\<close>

fun new_keys :: "'a set \<Rightarrow> 'a list \<Rightarrow> 'a list" where
  "new_keys seen [] = []"
| "new_keys seen (k # ks) =
     (if k \<in> seen then new_keys seen ks else k # new_keys (insert k seen) ks)"

text \<open>No message row holds a key that the session would be given next: the keys derived
  from the session id and an order above its current maximum are unused, so the
  \<^verbatim>\<open>UNIQUE\<close> constraint lets every write of an ingest or a merge into the session pass.\<close>

definition keys_unused :: "store \<Rightarrow> string \<Rightarrow> bool" where
  "keys_unused st sid =
     (\<forall>j > max_message_order st sid.
        derived_message_id sid j \<notin> set (map message_id (chat_messages st)))"

definition two_message_batch :: "raw_message list" where
  "two_message_batch =
     [example_message ''Maria'' ''hello'' ''09:00'' ''m1'',
      example_message ''me'' ''hi Maria'' ''09:01'' ''m2'']"

definition overlapping_batch :: "raw_message list" where
  "overlapping_batch =
     [example_message ''me'' ''hi Maria'' ''09:01'' ''n1'',
      example_message ''Maria'' ''are you free?'' ''09:05'' ''n2'']"

text \<open>What the schema and the reconciler's query ask of the session ids: \<^verbatim>\<open>session_id\<close> is
  \<^verbatim>\<open>UNIQUE\<close>, and an id with a comma in it does not survive the join with commas and the
  split at commas.\<close>

definition unique_session_ids :: "store \<Rightarrow> bool" where
  "unique_session_ids st = distinct (map session_id (chat_sessions st))"

definition comma_free_ids :: "store \<Rightarrow> bool" where
  "comma_free_ids st = list_all (\<lambda>s. CHR '','' \<notin> set (session_id s)) (chat_sessions st)"

text \<open>The rows of the sessions to remove, in the order the merge reads them.\<close>

definition incoming_messages :: "store \<Rightarrow> string list \<Rightarrow> chat_message list" where
  "incoming_messages st removes =
     concat (map (\<lambda>r. sort_key message_order (session_messages st r)) removes)"

text \<open>A merge deletes the session rows of the ids to remove and touches only the rollup
  columns of the session it keeps: the identity of a session row is its id, its
  fingerprint and its status.\<close>

definition same_identity :: "chat_session \<Rightarrow> chat_session \<Rightarrow> bool" where
  "same_identity a b =
     (session_id a = session_id b \<and> chat_platform a = chat_platform b
      \<and> chat_title a = chat_title b \<and> participant_name a = participant_name b
      \<and> status a = status b)"

text \<open>What reconciling one group makes of it, said of the store before and the store after:
  the kept session holds the rows it had, followed by one row for each dedup key that is
  new among the rows of the removed sessions, in the order they are read, numbered
  upwards from the kept session's maximum order, each with the content of a row it was
  read from; the kept session's row has its rollup refreshed; the removed sessions have
  neither message rows nor a session row.\<close>

definition absorbed :: "store \<Rightarrow> string \<Rightarrow> string list \<Rightarrow> datetime \<Rightarrow> store \<Rightarrow> bool" where
  "absorbed st keep removes now st' =
     (\<exists>new. session_messages st' keep = session_messages st keep @ new
         \<and> map dedup_key new
             = new_keys (set (dedup_keys st keep)) (map dedup_key (incoming_messages st removes))
         \<and> list_all (\<lambda>i. message_order (new ! i) = max_message_order st keep + 1 + int i)
               [0..<length new]
         \<and> list_all (\<lambda>row. list_ex (\<lambda>msg. same_content msg row) (incoming_messages st removes)) new
         \<and> session_rows st' keep
             = map (\<lambda>s. s\<lparr>last_activity := now, total_messages := message_count st' keep\<rparr>)
                 (session_rows st keep)
         \<and> list_all (\<lambda>r. session_messages st' r = [] \<and> session_rows st' r = []) removes)"


section \<open>The scraper side: \<^verbatim>\<open>parse_html_file\<close>\<close>

text \<open>
  What the parser reads off one element of a saved page: the stripped text, the value of
  \<^verbatim>\<open>hash(text)\<close> (Python salts the hash of a string anew in every process, so it is
  given with the element), what \<^verbatim>\<open>_extract_timestamp\<close>, \<^verbatim>\<open>_extract_sender\<close> and
  \<^verbatim>\<open>_determine_message_type\<close> return.
\<close>

record element =
  e_text :: string
  e_hash :: int
  e_timestamp :: string
  e_sender :: string
  e_message_type :: string

text \<open>\<^verbatim>\<open>_extract_message_data\<close>: no message for a text of fewer than two characters;
  the message id is \<^verbatim>\<open>f"{platform}_{hash(text)}_{timestamp}"\<close>.\<close>

definition extract_message_data :: "string \<Rightarrow> element \<Rightarrow> raw_message option" where
  "extract_message_data platform element =
     (if length (e_text element) < 2 then None
      else Some \<lparr> r_text = Some (e_text element),
                  r_sender = Some (e_sender element),
                  r_timestamp = Some (e_timestamp element),
                  r_sender_type = Some (e_message_type element),
                  r_message_id =
                    Some (platform @ ''_'' @ str_int (e_hash element) @ ''_'' @ e_timestamp element),
                  r_order = Some 0 \<rparr>)"

text \<open>\<^verbatim>\<open>_detect_platform_from_html\<close> answers with one of six words.\<close>

definition platforms :: "string list" where
  "platforms = [''upwork'', ''linkedin'', ''discord'', ''teams'', ''slack'', ''unknown'']"

text \<open>\<^verbatim>\<open>parse_html_file\<close>, given the platform detected and the elements that the first
  selector with a match finds: the three platforms with a parser of their own pass their
  name to \<^verbatim>\<open>_extract_message_data\<close>, the others go through \<^verbatim>\<open>parse_generic_messages\<close>,
  which passes \<^verbatim>\<open>'generic'\<close> and keeps the texts of more than ten characters.\<close>

definition parse_html_file :: "string \<Rightarrow> element list \<Rightarrow> raw_message list" where
  "parse_html_file platform elements =
     (if platform \<in> set [''upwork'', ''linkedin'', ''discord'']
      then List.map_filter (extract_message_data platform) elements
      else filter (\<lambda>message_data. length (dict_get (r_text message_data) []) > 10)
             (List.map_filter (extract_message_data ''generic'') elements))"

section \<open>The stores the code builds\<close>

definition count_char :: "char \<Rightarrow> string \<Rightarrow> nat" where
  "count_char c s = length (filter (\<lambda>x. x = c) s)"

text \<open>\<^verbatim>\<open>datetime.now().strftime('%Y%m%d_%H%M%S')\<close>: decimal digits around one underscore.\<close>

definition strftime_stamp :: "string \<Rightarrow> bool" where
  "strftime_stamp stamp =
     (count_char CHR ''_'' stamp = 1 \<and> list_all (\<lambda>c. decimal_digit c \<or> c = CHR ''_'') stamp)"

text \<open>A timestamp as \<^verbatim>\<open>_extract_timestamp\<close> gives it is the \<^verbatim>\<open>datetime\<close> attribute of a
  \<^verbatim>\<open>time\<close> element, a match of one of three patterns (a time of day with or without
  \<^verbatim>\<open>AM\<close> or \<^verbatim>\<open>PM\<close>, a date with hyphens), or \<^verbatim>\<open>datetime.now().isoformat()\<close>. The matches
  and the ISO form hold no underscore; the attribute is taken to hold none either.\<close>

definition plain_timestamp :: "element \<Rightarrow> bool" where
  "plain_timestamp element = (CHR ''_'' \<notin> set (e_timestamp element))"

text \<open>
  The stores that the callers under \<^verbatim>\<open>src/\<close> make of the empty database. A session is
  created by \<^verbatim>\<open>save_to_database\<close>, which \<^verbatim>\<open>process_incremental\<close>,
  \<^verbatim>\<open>process_latest_html\<close> and \<^verbatim>\<open>main\<close> call with a parsed file and without a session id.
  \<^verbatim>\<open>update_existing_session\<close> is called by \<^verbatim>\<open>process_incremental\<close> with the id of a
  stored session that \<^verbatim>\<open>chat_session_exists\<close> returned; here any stored session and any
  batch will do. \<^verbatim>\<open>cleanup_duplicate_chat_sessions\<close> is called by \<^verbatim>\<open>main\<close> and by
  \<^verbatim>\<open>cleanup_chat_database.py\<close>; it is the one caller of \<^verbatim>\<open>merge_chat_sessions\<close>.
  \<^verbatim>\<open>update_session_phase\<close> is the remaining writer of \<^verbatim>\<open>ChatDatabase\<close>.
\<close>

inductive built :: "store \<Rightarrow> bool" where
  built_empty: "built \<lparr> chat_sessions = [], chat_messages = [] \<rparr>"
| built_create:
    "built st \<Longrightarrow> platform \<in> set platforms \<Longrightarrow> strftime_stamp stamp
     \<Longrightarrow> list_all plain_timestamp elements
     \<Longrightarrow> built (fst (save_to_database st (parse_html_file platform elements) platform None
                        stamp now))"
| built_update:
    "built st \<Longrightarrow> sid \<in> set (map session_id (chat_sessions st))
     \<Longrightarrow> update_existing_session st sid new_messages now = Inr (st', saved_count)
     \<Longrightarrow> built st'"
| built_cleanup:
    "built st \<Longrightarrow> built (fst (cleanup_duplicate_chat_sessions st now))"
| built_phase:
    "built st \<Longrightarrow> built (fst (update_session_phase st sid ph confidence now))"

text \<open>What holds of every such store: the session ids are unique, each is a platform word,
  an underscore and a stamp, so it holds two underscores and no comma; every session is
  active; and the key of a message row either holds two underscores, as the keys of the
  parser do, or is the key derived from the row's own session and order position.\<close>

definition made_id :: "string \<Rightarrow> bool" where
  "made_id sid = (count_char CHR ''_'' sid = 2 \<and> CHR '','' \<notin> set sid)"

definition keyed_row :: "chat_message \<Rightarrow> bool" where
  "keyed_row row =
     (count_char CHR ''_'' (message_id row) = 2
      \<or> message_id row = derived_message_id (m_session_id row) (message_order row))"

definition well_formed :: "store \<Rightarrow> bool" where
  "well_formed st =
     (unique_session_ids st
      \<and> list_all (\<lambda>s. made_id (session_id s) \<and> status s = Some ''active'') (chat_sessions st)
      \<and> list_all keyed_row (chat_messages st))"

text \<open>The groups as the specification words them: the sessions with non-null platform and
  participant that share a (platform, title, participant) tuple; and a store without a
  duplicate group, in which no such tuple is shared by two sessions.\<close>

definition sessions_sharing :: "store \<Rightarrow> fingerprint \<Rightarrow> chat_session list" where
  "sessions_sharing st fp =
     filter (\<lambda>s. chat_platform s \<noteq> None \<and> participant_name s \<noteq> None
                 \<and> (chat_platform s, chat_title s, participant_name s) = fp)
       (chat_sessions st)"

definition no_duplicate_groups :: "store \<Rightarrow> bool" where
  "no_duplicate_groups st =
     list_all (\<lambda>s. length (sessions_sharing st (chat_platform s, chat_title s, participant_name s)) \<le> 1)
       (chat_sessions st)"

text \<open>The summary of a pass that found nothing.\<close>

definition nothing_to_do :: cleanup_stats where
  "nothing_to_do =
     \<lparr> duplicate_groups_found = 0, total_sessions_removed = 0, total_messages_merged = 0,
       total_duplicate_messages_skipped = 0, groups_processed = None, success = True \<rparr>"

section \<open>Example scrapes\<close>

text \<open>Two scrapes of Upwork pages, the stores that saving the first and then the second
  gives, ten minutes apart, and the store that saving both within one second gives.\<close>

definition morning_elements :: "element list" where
  "morning_elements =
     [\<lparr> e_text = ''hello'', e_hash = 11, e_timestamp = ''09:00'', e_sender = ''Maria'',
        e_message_type = ''incoming'' \<rparr>,
      \<lparr> e_text = ''hi Maria'', e_hash = 12, e_timestamp = ''09:01'', e_sender = ''me'',
        e_message_type = ''outgoing'' \<rparr>]"

definition later_elements :: "element list" where
  "later_elements =
     [\<lparr> e_text = ''hello'', e_hash = 21, e_timestamp = ''09:00'', e_sender = ''Maria'',
        e_message_type = ''incoming'' \<rparr>,
      \<lparr> e_text = ''are you free?'', e_hash = 22, e_timestamp = ''09:05'', e_sender = ''Maria'',
        e_message_type = ''incoming'' \<rparr>,
      \<lparr> e_text = ''see you at noon'', e_hash = 23, e_timestamp = ''09:06'', e_sender = ''Maria'',
        e_message_type = ''incoming'' \<rparr>]"

definition one_scrape_store :: store where
  "one_scrape_store =
     fst (save_to_database \<lparr> chat_sessions = [], chat_messages = [] \<rparr>
            (parse_html_file ''upwork'' morning_elements) ''upwork'' None ''20250101_100000'' 10)"

definition two_scrape_store :: store where
  "two_scrape_store =
     fst (save_to_database one_scrape_store
            (parse_html_file ''upwork'' later_elements) ''upwork'' None ''20250101_101000'' 20)"

definition same_second_store :: store where
  "same_second_store =
     fst (save_to_database one_scrape_store
            (parse_html_file ''upwork'' later_elements) ''upwork'' None ''20250101_100000'' 10)"

definition upwork_fingerprint :: fingerprint where
  "upwork_fingerprint = (Some ''upwork'', Some ''Upwork Chat Session'', Some ''Unknown'')"

section \<open>Replacing a session row\<close>

text \<open>
  C10. Saving a session through \<open>save_chat_session\<close> under a session id that the store
  already holds replaces the whole row: afterwards the store holds exactly one row for that
  id, with status \<open>active\<close>, last activity at the time of the call, and phase, phase
  confidence and phase update time NULL, whatever the replaced row held; the rows of the
  other sessions stay as they were.
\<close>

theorem save_chat_session_replaces_row:
  assumes "sd_session_id sd = Some sid"
    and "session_rows st sid \<noteq> []"
  shows "\<exists>st'. save_chat_session st sd now = Inr (st', sid)
           \<and> session_rows st' sid = [new_session_row sid sd now]
           \<and> status (new_session_row sid sd now) = Some ''active''
           \<and> last_activity (new_session_row sid sd now) = now
           \<and> phase (new_session_row sid sd now) = None
           \<and> phase_confidence (new_session_row sid sd now) = None
           \<and> phase_updated_at (new_session_row sid sd now) = None
           \<and> (\<forall>t. t \<noteq> sid \<longrightarrow> session_rows st' t = session_rows st t)
           \<and> chat_messages st' = chat_messages st"
  using assms
  by (auto simp add: save_chat_session_def session_rows_def new_session_row_def
      intro!: filter_cong)

theorem save_chat_session_replaces_row_witness:
  "map phase (session_rows phased_store ''s1'') = [Some ''negotiation'']
   \<and> (\<exists>st'. save_chat_session phased_store resave_data 20 = Inr (st', ''s1'')
          \<and> map phase (session_rows st' ''s1'') = [None]
          \<and> map phase_confidence (session_rows st' ''s1'') = [None]
          \<and> map phase_updated_at (session_rows st' ''s1'') = [None]
          \<and> map status (session_rows st' ''s1'') = [Some ''active'']
          \<and> map last_activity (session_rows st' ''s1'') = [20])"
proof -
  have rows: "session_rows phased_store ''s1'' \<noteq> []"
    and ph: "map phase (session_rows phased_store ''s1'') = [Some ''negotiation'']"
    by (simp_all add: phased_store_def update_session_phase_def session_rows_def
        example_session_def)
  have sd: "sd_session_id resave_data = Some ''s1''"
    by (simp add: resave_data_def)
  from save_chat_session_replaces_row [OF sd rows, of 20] ph show ?thesis
    by auto
qed

section \<open>The query of the resolver\<close>

lemma head_by_size_then_recency:
  assumes "by_size_then_recency rows = r # rest"
  shows "r \<in> set rows"
    and "\<forall>s \<in> set rows. total_messages s < total_messages r
           \<or> (total_messages s = total_messages r \<and> last_activity s \<le> last_activity r)"
proof -
  have same: "set (by_size_then_recency rows) = set rows"
    by (simp add: by_size_then_recency_def)
  with assms show "r \<in> set rows" by auto
  have "sorted (map (\<lambda>s. (- total_messages s, - last_activity s)) (by_size_then_recency rows))"
    by (simp add: by_size_then_recency_def)
  with assms have "\<forall>s \<in> set (r # rest).
      (- total_messages r, - last_activity r) \<le> (- total_messages s, - last_activity s)"
    by auto
  moreover have "set (r # rest) = set rows"
    using assms same by simp
  ultimately show "\<forall>s \<in> set rows. total_messages s < total_messages r
           \<or> (total_messages s = total_messages r \<and> last_activity s \<le> last_activity r)"
    by auto
qed

lemma by_size_then_recency_Nil: "by_size_then_recency rows = [] \<longleftrightarrow> rows = []"
  by (metis by_size_then_recency_def length_sort length_0_conv)

text \<open>
  The query has no condition on the status. The resolver answers none exactly when no
  session has the three strings as platform, title and participant; an answer is the id of
  such a session that no other such session beats on message count, nor, at equal count,
  on last activity; and the store it hands back is the store it was given.
\<close>

lemma chat_session_exists_all_matches:
  "snd (chat_session_exists st platform title participant) = st
   \<and> (fst (chat_session_exists st platform title participant) = None
        \<longleftrightarrow> filter (session_matches platform title participant) (chat_sessions st) = [])
   \<and> (\<forall>sid. fst (chat_session_exists st platform title participant) = Some sid \<longrightarrow>
        (\<exists>r \<in> set (chat_sessions st).
            session_id r = sid \<and> session_matches platform title participant r
            \<and> (\<forall>s \<in> set (chat_sessions st). session_matches platform title participant s \<longrightarrow>
                  total_messages s < total_messages r
                  \<or> (total_messages s = total_messages r \<and> last_activity s \<le> last_activity r))))"
proof -
  let ?rows = "filter (session_matches platform title participant) (chat_sessions st)"
  show ?thesis
  proof (cases "by_size_then_recency ?rows")
    case Nil
    moreover from Nil have "?rows = []"
      by (simp add: by_size_then_recency_Nil)
    ultimately show ?thesis
      by (simp add: chat_session_exists_def get_connection_def)
  next
    case (Cons r rest)
    from head_by_size_then_recency [OF Cons]
    have r: "r \<in> set (chat_sessions st)" "session_matches platform title participant r"
      and best: "\<forall>s \<in> set (chat_sessions st). session_matches platform title participant s \<longrightarrow>
           total_messages s < total_messages r
           \<or> (total_messages s = total_messages r \<and> last_activity s \<le> last_activity r)"
      by auto
    have nonempty: "?rows \<noteq> []"
      using r by (auto simp add: filter_empty_conv)
    have res: "chat_session_exists st platform title participant = (Some (session_id r), st)"
      using Cons by (simp add: chat_session_exists_def get_connection_def)
    show ?thesis
      unfolding res using r best nonempty by auto
  qed
qed

section \<open>Evaluating the model\<close>

text \<open>The equations that run the model on a concrete store.\<close>

lemmas eval_defs = update_existing_session_def get_connection_def max_message_order_def
  session_messages_def message_exists_def insert_message_def derived_message_id_def
  str_int_def str_nat.simps digit_char_def refresh_rollup_def message_count_def
  session_rows_def example_session_def example_message_def from_message_def

section \<open>The ingest loop, step by step\<close>

lemma ingest_loop_missing_key:
  assumes "r_sender msg = None \<or> r_text msg = None"
  shows "ingest_loop sid now (msg # rest) (st, mo, k) = Inl KeyError"
  using assms by (auto split: option.splits)

lemma ingest_loop_duplicate:
  assumes "r_sender msg = Some s" "r_text msg = Some t" "message_exists st sid s t"
  shows "ingest_loop sid now (msg # rest) (st, mo, k) = ingest_loop sid now rest (st, mo, k)"
  using assms by simp

lemma ingest_loop_written:
  assumes "r_sender msg = Some s" "r_text msg = Some t" "\<not> message_exists st sid s t"
    and "r_sender_type msg = Some sty" "r_timestamp msg = Some ts"
    and "derived_message_id sid (mo + 1) \<notin> set (map message_id (chat_messages st))"
  shows "ingest_loop sid now (msg # rest) (st, mo, k) =
           ingest_loop sid now rest
             (st\<lparr>chat_messages := chat_messages st @
                   [\<lparr> m_session_id = sid, message_id = derived_message_id sid (mo + 1),
                      sender = s, sender_type = sty, message_text = t,
                      timestamp = numeric_affinity ts,
                      message_order = mo + 1, scraped_at = now \<rparr>]\<rparr>, mo + 1, k + 1)"
  using assms by (simp add: insert_message_def)

lemma ingest_loop_not_written:
  assumes "r_sender msg = Some s" "r_text msg = Some t" "\<not> message_exists st sid s t"
    and "r_sender_type msg = None \<or> r_timestamp msg = None
         \<or> derived_message_id sid (mo + 1) \<in> set (map message_id (chat_messages st))"
  shows "ingest_loop sid now (msg # rest) (st, mo, k) = ingest_loop sid now rest (st, mo + 1, k)"
  using assms by (auto simp add: insert_message_def split: option.splits)

lemma ingest_loop_cases:
  obtains (missing_key) "r_sender msg = None \<or> r_text msg = None"
  | (duplicate) s t where "r_sender msg = Some s" "r_text msg = Some t" "message_exists st sid s t"
  | (written) s t sty ts where "r_sender msg = Some s" "r_text msg = Some t"
      "\<not> message_exists st sid s t" "r_sender_type msg = Some sty" "r_timestamp msg = Some ts"
      "derived_message_id sid (mo + 1) \<notin> set (map message_id (chat_messages st))"
  | (not_written) s t where "r_sender msg = Some s" "r_text msg = Some t"
      "\<not> message_exists st sid s t"
      "r_sender_type msg = None \<or> r_timestamp msg = None
         \<or> derived_message_id sid (mo + 1) \<in> set (map message_id (chat_messages st))"
proof (cases "r_sender msg")
  case None
  then show ?thesis using missing_key by simp
next
  case s: (Some s)
  show ?thesis
  proof (cases "r_text msg")
    case None
    then show ?thesis using missing_key by simp
  next
    case t: (Some t)
    show ?thesis
    proof (cases "message_exists st sid s t")
      case True
      with s t show ?thesis by (rule duplicate)
    next
      case False
      show ?thesis
      proof (cases "r_sender_type msg = None \<or> r_timestamp msg = None
         \<or> derived_message_id sid (mo + 1) \<in> set (map message_id (chat_messages st))")
        case True
        with s t False show ?thesis by (rule not_written)
      next
        case no: False
        then obtain sty ts where "r_sender_type msg = Some sty" "r_timestamp msg = Some ts"
          by auto
        with s t False no show ?thesis by (intro written) auto
      qed
    qed
  qed
qed

lemma ingest_loop_KeyError:
  assumes "\<exists>msg \<in> set batch. r_sender msg = None \<or> r_text msg = None"
  shows "ingest_loop sid now batch (st, mo, k) = Inl KeyError"
  using assms
proof (induction batch arbitrary: st mo k)
  case Nil
  then show ?case by simp
next
  case (Cons msg rest)
  show ?case
  proof (cases rule: ingest_loop_cases [where msg=msg and st=st and sid=sid and mo=mo])
    case missing_key
    then show ?thesis by (rule ingest_loop_missing_key)
  next
    case (duplicate s t)
    with Cons.prems have "\<exists>msg \<in> set rest. r_sender msg = None \<or> r_text msg = None" by auto
    then show ?thesis unfolding ingest_loop_duplicate [OF duplicate] by (rule Cons.IH)
  next
    case (written s t sty ts)
    with Cons.prems have "\<exists>msg \<in> set rest. r_sender msg = None \<or> r_text msg = None" by auto
    then show ?thesis unfolding ingest_loop_written [OF written] by (rule Cons.IH)
  next
    case (not_written s t)
    with Cons.prems have "\<exists>msg \<in> set rest. r_sender msg = None \<or> r_text msg = None" by auto
    then show ?thesis unfolding ingest_loop_not_written [OF not_written] by (rule Cons.IH)
  qed
qed

lemma ingest_loop_effect:
  assumes "ingest_loop sid now batch (st, mo, k) = Inr (st', mo', k')"
  shows "chat_sessions st' = chat_sessions st \<and> mo \<le> mo'
         \<and> (\<exists>new. chat_messages st' = chat_messages st @ new \<and> k' = k + length new
               \<and> sorted_wrt (<) (map message_order new)
               \<and> (\<forall>row \<in> set new. m_session_id row = sid \<and> mo < message_order row
                     \<and> message_order row \<le> mo'
                     \<and> (\<exists>msg \<in> set batch. from_message msg row)))"
  using assms
proof (induction batch arbitrary: st mo k)
  case Nil
  then show ?case by simp
next
  case (Cons msg rest)
  show ?case
  proof (cases rule: ingest_loop_cases [where msg=msg and st=st and sid=sid and mo=mo])
    case missing_key
    from Cons.prems show ?thesis unfolding ingest_loop_missing_key [OF missing_key] by simp
  next
    case (duplicate s t)
    from Cons.prems have "ingest_loop sid now rest (st, mo, k) = Inr (st', mo', k')"
      unfolding ingest_loop_duplicate [OF duplicate] .
    from Cons.IH [OF this] show ?thesis by auto
  next
    case (written s t sty ts)
    let ?row = "\<lparr> m_session_id = sid, message_id = derived_message_id sid (mo + 1),
                      sender = s, sender_type = sty, message_text = t,
                      timestamp = numeric_affinity ts,
                      message_order = mo + 1, scraped_at = now \<rparr>"
    let ?st1 = "st\<lparr>chat_messages := chat_messages st @ [?row]\<rparr>"
    from Cons.prems have "ingest_loop sid now rest (?st1, mo + 1, k + 1) = Inr (st', mo', k')"
      unfolding ingest_loop_written [OF written] .
    from Cons.IH [OF this] obtain new where
      s: "chat_sessions st' = chat_sessions st" and le: "mo + 1 \<le> mo'"
      and new: "chat_messages st' = chat_messages st @ ?row # new" "k' = k + 1 + length new"
        "sorted_wrt (<) (map message_order new)"
        "\<forall>row \<in> set new. m_session_id row = sid \<and> mo + 1 < message_order row
                     \<and> message_order row \<le> mo'
                     \<and> (\<exists>msg \<in> set rest. from_message msg row)"
      by auto
    have "from_message msg ?row" using written by (simp add: from_message_def)
    with s le new show ?thesis
      by (intro conjI exI [of _ "?row # new"]) (auto simp add: less_imp_le)
  next
    case (not_written s t)
    from Cons.prems have "ingest_loop sid now rest (st, mo + 1, k) = Inr (st', mo', k')"
      unfolding ingest_loop_not_written [OF not_written] .
    from Cons.IH [OF this] obtain new where
      s: "chat_sessions st' = chat_sessions st" and le: "mo + 1 \<le> mo'"
      and new: "chat_messages st' = chat_messages st @ new" "k' = k + length new"
        "sorted_wrt (<) (map message_order new)"
      and rows: "\<forall>row \<in> set new. m_session_id row = sid \<and> mo + 1 < message_order row
                     \<and> message_order row \<le> mo'
                     \<and> (\<exists>msg \<in> set rest. from_message msg row)"
      by auto
    from rows have "\<forall>row \<in> set new. m_session_id row = sid \<and> mo < message_order row
                     \<and> message_order row \<le> mo'
                     \<and> (\<exists>msg \<in> set (msg # rest). from_message msg row)"
      by fastforce
    with s le new show ?thesis
      by (intro conjI exI [of _ new]) auto
  qed
qed


lemma ingest_loop_accepts:
  assumes "\<forall>msg \<in> set batch. r_sender msg \<noteq> None \<and> r_text msg \<noteq> None"
  shows "\<exists>res. ingest_loop sid now batch (st, mo, k) = Inr res"
  using assms
proof (induction batch arbitrary: st mo k)
  case Nil
  then show ?case by simp
next
  case (Cons msg rest)
  then have rest: "\<forall>msg \<in> set rest. r_sender msg \<noteq> None \<and> r_text msg \<noteq> None"
    by simp
  show ?case
  proof (cases rule: ingest_loop_cases [where msg=msg and st=st and sid=sid and mo=mo])
    case missing_key
    with Cons.prems show ?thesis by auto
  next
    case (duplicate s t)
    show ?thesis unfolding ingest_loop_duplicate [OF duplicate] by (rule Cons.IH [OF rest])
  next
    case (written s t sty ts)
    show ?thesis unfolding ingest_loop_written [OF written] by (rule Cons.IH [OF rest])
  next
    case (not_written s t)
    show ?thesis unfolding ingest_loop_not_written [OF not_written] by (rule Cons.IH [OF rest])
  qed
qed

section \<open>Malformed batches\<close>

lemma refresh_rollup_simps [simp]:
  "chat_messages (refresh_rollup st sid now) = chat_messages st"
  "session_messages (refresh_rollup st sid now) t = session_messages st t"
  "message_count (refresh_rollup st sid now) t = message_count st t"
  by (simp_all add: refresh_rollup_def session_messages_def message_count_def)

lemma refresh_rollup_sessions:
  "chat_sessions (refresh_rollup st sid now) =
     map (\<lambda>s. if session_id s = sid
               then s\<lparr>last_activity := now, total_messages := message_count st sid\<rparr>
               else s) (chat_sessions st)"
  by (simp add: refresh_rollup_def)

text \<open>
  C9, as the code has it. Nothing is validated before the writes. A batch in which some
  message lacks its sender or its text ends \<open>update_existing_session\<close> with \<open>KeyError\<close>
  before the commit, so the store keeps its state. Every other batch, also one in which a
  message lacks its sender role or its timestamp, is accepted: the call returns, rows are
  only appended, and the session row has its last activity and its count refreshed.
\<close>

theorem update_existing_session_malformed_batch:
  "((\<exists>msg \<in> set batch. r_sender msg = None \<or> r_text msg = None) \<longrightarrow>
      update_existing_session st sid batch now = Inl KeyError)
   \<and> ((\<forall>msg \<in> set batch. r_sender msg \<noteq> None \<and> r_text msg \<noteq> None) \<longrightarrow>
      (\<exists>st' n new. update_existing_session st sid batch now = Inr (st', n)
          \<and> chat_messages st' = chat_messages st @ new \<and> n = length new
          \<and> chat_sessions st' =
                map (\<lambda>s. if session_id s = sid
                          then s\<lparr>last_activity := now, total_messages := message_count st' sid\<rparr>
                          else s) (chat_sessions st)))"
proof (intro conjI impI)
  assume "\<exists>msg \<in> set batch. r_sender msg = None \<or> r_text msg = None"
  then show "update_existing_session st sid batch now = Inl KeyError"
    by (simp add: update_existing_session_def get_connection_def ingest_loop_KeyError)
next
  assume "\<forall>msg \<in> set batch. r_sender msg \<noteq> None \<and> r_text msg \<noteq> None"
  from ingest_loop_accepts [OF this] obtain st1 mo1 k1
    where loop: "ingest_loop sid now batch (st, max_message_order st sid, 0) = Inr (st1, mo1, k1)"
    by (metis prod_cases3)
  from ingest_loop_effect [OF loop] obtain new where
    eff: "chat_sessions st1 = chat_sessions st" "chat_messages st1 = chat_messages st @ new"
      "k1 = length new" "\<forall>row \<in> set new. \<exists>msg \<in> set batch. from_message msg row"
    by auto
  have res: "update_existing_session st sid batch now = Inr (refresh_rollup st1 sid now, k1)"
    using loop by (simp add: update_existing_session_def get_connection_def)
  show "\<exists>st' n new. update_existing_session st sid batch now = Inr (st', n)
          \<and> chat_messages st' = chat_messages st @ new \<and> n = length new
          \<and> chat_sessions st' =
                map (\<lambda>s. if session_id s = sid
                          then s\<lparr>last_activity := now, total_messages := message_count st' sid\<rparr>
                          else s) (chat_sessions st)"
    unfolding res using eff
    by (intro exI [of _ "refresh_rollup st1 sid now"] exI [of _ k1] exI [of _ new])
      (simp add: refresh_rollup_sessions)
qed

theorem update_existing_session_malformed_batch_witness:
  "update_existing_session one_session_store ''s1'' no_sender_batch 9 = Inl KeyError
   \<and> (\<exists>st' n new. update_existing_session one_session_store ''s1'' no_timestamp_batch 9 = Inr (st', n)
          \<and> chat_messages st' = chat_messages one_session_store @ new \<and> n = length new
          \<and> map message_text new = [''hello''])"
proof -
  have a: "update_existing_session one_session_store ''s1'' no_sender_batch 9 = Inl KeyError"
    using update_existing_session_malformed_batch [of no_sender_batch one_session_store "''s1''" 9]
    by (simp add: no_sender_batch_def example_message_def)
  have b: "update_existing_session one_session_store ''s1'' no_timestamp_batch 9 =
     Inr (\<lparr> chat_sessions = [example_session ''s1'' ''upwork'' ''Upwork Chat with Maria'' ''Maria'' 1 9],
             chat_messages = [\<lparr> m_session_id = ''s1'', message_id = ''s1_1'', sender = ''Maria'',
               sender_type = ''unknown'', message_text = ''hello'', timestamp = numeric_affinity ''10:30'',
               message_order = 1, scraped_at = 9 \<rparr>] \<rparr>, 1)"
    by (simp add: eval_defs one_session_store_def no_timestamp_batch_def)
  show ?thesis using a b by (simp add: one_session_store_def)
qed

text \<open>The claim as worded fails on a batch whose second message has no timestamp: the
  first message is stored and the session row is updated.\<close>

theorem malformed_batch_written_counterexample:
  "r_timestamp (no_timestamp_batch ! 1) = None
   \<and> (\<exists>st'. update_existing_session one_session_store ''s1'' no_timestamp_batch 9 = Inr (st', 1)
         \<and> map message_text (chat_messages st') = [''hello'']
         \<and> chat_messages one_session_store = []
         \<and> map last_activity (chat_sessions st') = [9]
         \<and> map last_activity (chat_sessions one_session_store) = [5])"
  by (simp add: eval_defs one_session_store_def no_timestamp_batch_def)


section \<open>Rollup after session creation\<close>

text \<open>
  C6 at a failing input. A scrape holds the same text twice under the same timestamp, so
  the parser gives both messages the same \<open>message_id\<close>; \<open>save_to_database\<close> stores
  the batch length 2 as the session's count while \<^verbatim>\<open>INSERT OR IGNORE\<close> keeps one row.
\<close>

theorem save_to_database_count_mismatch:
  "(case save_to_database empty_store repeated_batch ''upwork'' None ''20250101_100000'' 100 of
      (st', sid) \<Rightarrow> map total_messages (session_rows st' sid) = [2] \<and> message_count st' sid = 1)"
  by (simp add: save_to_database_def save_chat_session_def new_session_row_def dict_get_def
      save_chat_messages_def py_title_def ascii_lower_def ascii_upper_def empty_store_def
      repeated_batch_def eval_defs Let_def)

section \<open>Two scrapes of one conversation\<close>

text \<open>
  C8 at its own scenario. Two scrapes of one Upwork conversation, the second holding the
  five messages of the first and two new ones, are processed ten minutes apart on an empty
  store. The first call creates a session titled \<open>Upwork Chat Session\<close> for the
  participant \<open>Unknown\<close>; the second call looks for the title \<open>Upwork Chat with ...\<close>,
  finds nothing and creates a second session: two sessions and twelve message rows, whatever
  sender \<open>first_of\<close> picks.
\<close>

theorem two_scrapes_two_sessions:
  "(case process_incremental first_of empty_store first_scrape ''upwork'' ''20250101_100000'' 600 of
      (r1, st1) \<Rightarrow>
        (case process_incremental first_of st1 second_scrape ''upwork'' ''20250101_101000'' 1200 of
           (r2, st2) \<Rightarrow>
             r1 = NewSession ''upwork_20250101_100000'' 5
             \<and> r2 = NewSession ''upwork_20250101_101000'' 7
             \<and> map session_id (chat_sessions st2) =
                 [''upwork_20250101_100000'', ''upwork_20250101_101000'']
             \<and> map chat_title (chat_sessions st2) =
                 [Some ''Upwork Chat Session'', Some ''Upwork Chat Session'']
             \<and> map total_messages (chat_sessions st2) = [5, 7]
             \<and> length (chat_messages st2) = 12))"
  by (simp add: process_incremental_def extract_participant_name_def chat_session_exists_def
      by_size_then_recency_def session_matches_def
      save_to_database_def save_chat_session_def new_session_row_def dict_get_def
      save_chat_messages_def py_title_def ascii_lower_def ascii_upper_def empty_store_def
      first_scrape_def second_scrape_def eval_defs Let_def)

section \<open>Order positions\<close>

lemma session_messages_unused:
  assumes "sid \<notin> set (map m_session_id (chat_messages st))"
  shows "session_messages st sid = []"
  using assms by (auto simp add: session_messages_def filter_empty_conv)

lemma order_monotone_iff:
  "order_monotone st \<longleftrightarrow> (\<forall>sid. sorted_wrt (<) (map message_order (session_messages st sid)))"
proof
  assume m: "order_monotone st"
  show "\<forall>sid. sorted_wrt (<) (map message_order (session_messages st sid))"
  proof
    fix sid
    show "sorted_wrt (<) (map message_order (session_messages st sid))"
    proof (cases "sid \<in> set (map m_session_id (chat_messages st))")
      case True
      with m show ?thesis by (auto simp add: order_monotone_def list_all_iff)
    next
      case False
      then show ?thesis by (simp add: session_messages_unused)
    qed
  qed
next
  assume "\<forall>sid. sorted_wrt (<) (map message_order (session_messages st sid))"
  then show "order_monotone st" by (simp add: order_monotone_def list_all_iff)
qed

lemma max_message_order_ge:
  assumes "row \<in> set (session_messages st sid)"
  shows "message_order row \<le> max_message_order st sid"
proof -
  from assms have "message_order row \<in> set (map message_order (session_messages st sid))"
    by simp
  then show ?thesis
    by (auto simp add: max_message_order_def Let_def)
qed

text \<open>Appending rows of one session whose orders rise above a bound on that session's
  stored orders keeps every session's orders rising.\<close>

lemma order_monotone_append:
  assumes mono: "order_monotone st"
    and bound: "\<forall>row \<in> set (session_messages st sid). message_order row \<le> mo"
    and msgs: "chat_messages st' = chat_messages st @ new"
    and sorted: "sorted_wrt (<) (map message_order new)"
    and new: "\<forall>row \<in> set new. m_session_id row = sid \<and> mo < message_order row"
  shows "order_monotone st'"
  unfolding order_monotone_iff
proof
  fix t
  from mono have old: "sorted_wrt (<) (map message_order (session_messages st t))"
    by (simp add: order_monotone_iff)
  show "sorted_wrt (<) (map message_order (session_messages st' t))"
  proof (cases "t = sid")
    case True
    have f: "filter (\<lambda>m. m_session_id m = sid) new = new"
      using new by (simp add: filter_id_conv)
    have "session_messages st' sid = session_messages st sid @ new"
      by (simp add: session_messages_def msgs f)
    moreover have "\<forall>x \<in> set (session_messages st sid). \<forall>y \<in> set new.
        message_order x < message_order y"
    proof (intro ballI)
      fix x y
      assume "x \<in> set (session_messages st sid)" "y \<in> set new"
      with bound new have "message_order x \<le> mo" "mo < message_order y" by blast+
      then show "message_order x < message_order y" by simp
    qed
    ultimately show ?thesis
      using old sorted True by (simp add: sorted_wrt_append)
  next
    case False
    have f: "filter (\<lambda>m. m_session_id m = t) new = []"
      using new False by (auto simp add: filter_empty_conv)
    have "session_messages st' t = session_messages st t"
      by (simp add: session_messages_def msgs f)
    with old show ?thesis by simp
  qed
qed

lemma order_monotone_same_messages:
  assumes "chat_messages st' = chat_messages st" "order_monotone st"
  shows "order_monotone st'"
  using assms by (simp add: order_monotone_def session_messages_def)

lemma update_existing_session_order:
  assumes mono: "order_monotone st" and upd: "update_existing_session st sid batch now = Inr (st', n)"
  shows "order_monotone st'"
proof (cases "ingest_loop sid now batch (st, max_message_order st sid, 0)")
  case (Inl e)
  with upd show ?thesis by (simp add: update_existing_session_def get_connection_def)
next
  case (Inr res)
  obtain st1 mo1 k1 where res: "res = (st1, mo1, k1)" by (cases res) auto
  with Inr have loop: "ingest_loop sid now batch (st, max_message_order st sid, 0) = Inr (st1, mo1, k1)"
    by simp
  with upd have st': "st' = refresh_rollup st1 sid now"
    by (simp add: update_existing_session_def get_connection_def)
  from ingest_loop_effect [OF loop] obtain new where
    app: "chat_messages st1 = chat_messages st @ new"
    and srt: "sorted_wrt (<) (map message_order new)"
    and rows: "\<forall>row \<in> set new. m_session_id row = sid \<and> max_message_order st sid < message_order row"
    by blast
  have bound: "\<forall>row \<in> set (session_messages st sid). message_order row \<le> max_message_order st sid"
    by (simp add: max_message_order_ge)
  have "order_monotone st1"
    by (rule order_monotone_append [OF mono bound app srt rows])
  moreover have "chat_messages st' = chat_messages st1"
    by (simp add: st')
  ultimately show ?thesis
    by (intro order_monotone_same_messages [of st' st1])
qed

section \<open>The merge loop, step by step\<close>

lemma merge_messages_duplicate:
  assumes "message_exists st keep (sender msg) (message_text msg)"
  shows "merge_messages keep (msg # rest) (st, mo, stats) =
           merge_messages keep rest
             (st, mo, stats\<lparr>duplicate_messages_skipped := duplicate_messages_skipped stats + 1\<rparr>)"
  using assms by simp

lemma merge_messages_written:
  assumes "\<not> message_exists st keep (sender msg) (message_text msg)"
    and "derived_message_id keep (mo + 1) \<notin> set (map message_id (chat_messages st))"
  shows "merge_messages keep (msg # rest) (st, mo, stats) =
           merge_messages keep rest
             (st\<lparr>chat_messages := chat_messages st @
                   [\<lparr> m_session_id = keep, message_id = derived_message_id keep (mo + 1),
                      sender = sender msg, sender_type = sender_type msg,
                      message_text = message_text msg, timestamp = timestamp msg,
                      message_order = mo + 1, scraped_at = scraped_at msg \<rparr>]\<rparr>,
              mo + 1, stats\<lparr>messages_merged := messages_merged stats + 1\<rparr>)"
  using assms by (simp add: insert_message_def)

lemma merge_messages_not_written:
  assumes "\<not> message_exists st keep (sender msg) (message_text msg)"
    and "derived_message_id keep (mo + 1) \<in> set (map message_id (chat_messages st))"
  shows "merge_messages keep (msg # rest) (st, mo, stats) =
           merge_messages keep rest (st, mo + 1, stats)"
  using assms by (simp add: insert_message_def)

lemma merge_messages_cases:
  obtains (duplicate) "message_exists st keep (sender msg) (message_text msg)"
  | (written) "\<not> message_exists st keep (sender msg) (message_text msg)"
      "derived_message_id keep (mo + 1) \<notin> set (map message_id (chat_messages st))"
  | (not_written) "\<not> message_exists st keep (sender msg) (message_text msg)"
      "derived_message_id keep (mo + 1) \<in> set (map message_id (chat_messages st))"
  by blast

lemma merge_messages_effect:
  assumes "merge_messages keep msgs (st, mo, stats) = (st', mo', stats')"
  shows "chat_sessions st' = chat_sessions st \<and> mo \<le> mo'
         \<and> (\<exists>new. chat_messages st' = chat_messages st @ new
               \<and> sorted_wrt (<) (map message_order new)
               \<and> (\<forall>row \<in> set new. m_session_id row = keep \<and> mo < message_order row
                     \<and> message_order row \<le> mo'
                     \<and> (\<exists>msg \<in> set msgs. same_content msg row)))"
  using assms
proof (induction msgs arbitrary: st mo stats)
  case Nil
  then show ?case by simp
next
  case (Cons msg rest)
  show ?case
  proof (cases rule: merge_messages_cases [where msg=msg and st=st and keep=keep and mo=mo])
    case duplicate
    from Cons.prems have "merge_messages keep rest
        (st, mo, stats\<lparr>duplicate_messages_skipped := duplicate_messages_skipped stats + 1\<rparr>)
        = (st', mo', stats')"
      unfolding merge_messages_duplicate [OF duplicate] .
    from Cons.IH [OF this] show ?thesis by auto
  next
    case written
    let ?row = "\<lparr> m_session_id = keep, message_id = derived_message_id keep (mo + 1),
                      sender = sender msg, sender_type = sender_type msg,
                      message_text = message_text msg, timestamp = timestamp msg,
                      message_order = mo + 1, scraped_at = scraped_at msg \<rparr>"
    let ?st1 = "st\<lparr>chat_messages := chat_messages st @ [?row]\<rparr>"
    from Cons.prems have "merge_messages keep rest
        (?st1, mo + 1, stats\<lparr>messages_merged := messages_merged stats + 1\<rparr>) = (st', mo', stats')"
      unfolding merge_messages_written [OF written] .
    from Cons.IH [OF this] obtain new where
      s: "chat_sessions st' = chat_sessions st" and le: "mo + 1 \<le> mo'"
      and new: "chat_messages st' = chat_messages st @ ?row # new"
        "sorted_wrt (<) (map message_order new)"
      and rows: "\<forall>row \<in> set new. m_session_id row = keep \<and> mo + 1 < message_order row
                     \<and> message_order row \<le> mo'
                     \<and> (\<exists>msg \<in> set rest. same_content msg row)"
      by auto
    have "same_content msg ?row" by (simp add: same_content_def)
    with s le new rows show ?thesis
      by (intro conjI exI [of _ "?row # new"]) (auto simp add: less_imp_le)
  next
    case not_written
    from Cons.prems have "merge_messages keep rest (st, mo + 1, stats) = (st', mo', stats')"
      unfolding merge_messages_not_written [OF not_written] .
    from Cons.IH [OF this] obtain new where
      s: "chat_sessions st' = chat_sessions st" and le: "mo + 1 \<le> mo'"
      and new: "chat_messages st' = chat_messages st @ new"
        "sorted_wrt (<) (map message_order new)"
      and rows: "\<forall>row \<in> set new. m_session_id row = keep \<and> mo + 1 < message_order row
                     \<and> message_order row \<le> mo'
                     \<and> (\<exists>msg \<in> set rest. same_content msg row)"
      by auto
    from rows have "\<forall>row \<in> set new. m_session_id row = keep \<and> mo < message_order row
                     \<and> message_order row \<le> mo'
                     \<and> (\<exists>msg \<in> set (msg # rest). same_content msg row)"
      by fastforce
    with s le new show ?thesis
      by (intro conjI exI [of _ new]) auto
  qed
qed

lemma session_messages_delete_session:
  "session_messages (delete_session st sid) t =
     filter (\<lambda>m. m_session_id m \<noteq> sid) (session_messages st t)"
  by (simp add: session_messages_def delete_session_def conj_commute)

lemma order_monotone_delete_session:
  assumes "order_monotone st"
  shows "order_monotone (delete_session st sid)"
  unfolding order_monotone_iff
proof
  fix t
  from assms have "sorted_wrt (\<lambda>a b. message_order a < message_order b) (session_messages st t)"
    by (simp add: order_monotone_iff sorted_wrt_map)
  then have "sorted_wrt (\<lambda>a b. message_order a < message_order b)
      (filter (\<lambda>m. m_session_id m \<noteq> sid) (session_messages st t))"
    by (rule sorted_wrt_filter)
  then show "sorted_wrt (<) (map message_order (session_messages (delete_session st sid) t))"
    by (simp add: session_messages_delete_session sorted_wrt_map)
qed

lemma session_messages_delete_session_subset:
  "set (session_messages (delete_session st sid) t) \<subseteq> set (session_messages st t)"
  by (simp add: session_messages_delete_session)

lemma merge_sessions_step:
  assumes "merge_messages keep (sort_key message_order (session_messages st r)) (st, mo, stats)
            = (st1, mo1, stats1)"
  shows "merge_sessions keep (r # rest) (st, mo, stats) =
           merge_sessions keep rest
             (delete_session st1 r, mo1,
              stats1\<lparr>sessions_removed := sessions_removed stats1 + 1\<rparr>)"
  using assms by simp

lemma merge_sessions_order:
  assumes "order_monotone st"
    and "\<forall>row \<in> set (session_messages st keep). message_order row \<le> mo"
  shows "order_monotone (fst (merge_sessions keep removes (st, mo, stats)))"
  using assms
proof (induction removes arbitrary: st mo stats)
  case Nil
  then show ?case by simp
next
  case (Cons r rest)
  obtain st1 mo1 stats1 where
    mm: "merge_messages keep (sort_key message_order (session_messages st r)) (st, mo, stats)
          = (st1, mo1, stats1)"
    by (metis prod_cases3)
  from merge_messages_effect [OF mm] obtain new where
    le: "mo \<le> mo1" and app: "chat_messages st1 = chat_messages st @ new"
    and srt: "sorted_wrt (<) (map message_order new)"
    and rows: "\<forall>row \<in> set new. m_session_id row = keep \<and> mo < message_order row
                     \<and> message_order row \<le> mo1"
    by blast
  from rows have rows': "\<forall>row \<in> set new. m_session_id row = keep \<and> mo < message_order row"
    by blast
  have mono1: "order_monotone st1"
    by (rule order_monotone_append [OF Cons.prems(1) Cons.prems(2) app srt rows'])
  have "set (session_messages st1 keep) \<subseteq> set (session_messages st keep) \<union> set new"
    by (auto simp add: session_messages_def app)
  with Cons.prems(2) le rows
  have bound1: "\<forall>row \<in> set (session_messages st1 keep). message_order row \<le> mo1"
    by (meson UnE order_trans subsetD)
  have "order_monotone (delete_session st1 r)"
    using mono1 by (rule order_monotone_delete_session)
  moreover have "\<forall>row \<in> set (session_messages (delete_session st1 r) keep). message_order row \<le> mo1"
    using bound1 session_messages_delete_session_subset by blast
  ultimately have "order_monotone (fst (merge_sessions keep rest
      (delete_session st1 r, mo1, stats1\<lparr>sessions_removed := sessions_removed stats1 + 1\<rparr>)))"
    by (rule Cons.IH)
  then show ?case by (simp only: merge_sessions_step [OF mm])
qed

lemma merge_chat_sessions_messages:
  "chat_messages (fst (merge_chat_sessions st keep removes now)) =
     chat_messages (fst (merge_sessions keep removes
       (st, max_message_order st keep,
        \<lparr> messages_merged = 0, duplicate_messages_skipped = 0, sessions_removed = 0,
          total_messages_before = message_count st keep, total_messages_after = 0 \<rparr>)))"
  by (simp add: merge_chat_sessions_def Let_def split_beta)

lemma merge_chat_sessions_order:
  assumes "order_monotone st"
  shows "order_monotone (fst (merge_chat_sessions st keep removes now))"
proof -
  let ?stats = "\<lparr> messages_merged = 0, duplicate_messages_skipped = 0, sessions_removed = 0,
                    total_messages_before = message_count st keep,
                    total_messages_after = 0 \<rparr>"
  have bound: "\<forall>row \<in> set (session_messages st keep). message_order row \<le> max_message_order st keep"
    by (simp add: max_message_order_ge)
  have "order_monotone (fst (merge_sessions keep removes (st, max_message_order st keep, ?stats)))"
    by (rule merge_sessions_order [OF assms bound])
  with merge_chat_sessions_messages show ?thesis
    by (rule order_monotone_same_messages)
qed

lemma merge_groups_step:
  "merge_groups now (g # rest) (st, acc) =
     merge_groups now rest
       (fst (merge_chat_sessions st (keep_session g) (remove_sessions g) now),
        acc\<lparr>total_sessions_removed :=
              total_sessions_removed acc
              + sessions_removed (snd (merge_chat_sessions st (keep_session g) (remove_sessions g) now)),
            total_messages_merged :=
              total_messages_merged acc
              + messages_merged (snd (merge_chat_sessions st (keep_session g) (remove_sessions g) now)),
            total_duplicate_messages_skipped :=
              total_duplicate_messages_skipped acc
              + duplicate_messages_skipped
                  (snd (merge_chat_sessions st (keep_session g) (remove_sessions g) now)),
            groups_processed := map_option (\<lambda>n. n + 1) (groups_processed acc)\<rparr>)"
  by (simp add: split_beta)

lemma merge_groups_order:
  assumes "order_monotone st"
  shows "order_monotone (fst (merge_groups now gs (st, acc)))"
  using assms
proof (induction gs arbitrary: st acc)
  case Nil
  then show ?case by simp
next
  case (Cons g rest)
  from Cons.prems
  have "order_monotone (fst (merge_chat_sessions st (keep_session g) (remove_sessions g) now))"
    by (rule merge_chat_sessions_order)
  then show ?case
    unfolding merge_groups_step by (rule Cons.IH)
qed

lemma cleanup_order:
  assumes "order_monotone st"
  shows "order_monotone (fst (cleanup_duplicate_chat_sessions st now))"
proof (cases "find_duplicate_chat_sessions st = []")
  case True
  with assms show ?thesis by (simp add: cleanup_duplicate_chat_sessions_def)
next
  case False
  then have "fst (cleanup_duplicate_chat_sessions st now) =
      fst (merge_groups now (find_duplicate_chat_sessions st)
        (st, \<lparr> duplicate_groups_found = length (find_duplicate_chat_sessions st),
                    total_sessions_removed = 0, total_messages_merged = 0,
                    total_duplicate_messages_skipped = 0, groups_processed = Some 0,
                    success = True \<rparr>))"
    by (simp add: cleanup_duplicate_chat_sessions_def Let_def)
  with merge_groups_order [OF assms] show ?thesis by simp
qed

section \<open>Decimal rendering is injective\<close>

lemma digit_char_inj:
  assumes "a < 10" "b < 10" "digit_char a = digit_char b"
  shows "a = b"
proof -
  have "distinct ''0123456789''" by simp
  moreover have "a < length ''0123456789''" "b < length ''0123456789''"
    using assms by simp_all
  ultimately show ?thesis
    using assms(3) unfolding digit_char_def by (simp only: nth_eq_iff_index_eq)
qed

lemma digit_char_in_digits:
  assumes "d < 10"
  shows "digit_char d \<in> set ''0123456789''"
proof -
  have "d < length ''0123456789''" using assms by simp
  then show ?thesis unfolding digit_char_def by (rule nth_mem)
qed

lemma str_nat_digits: "set (str_nat n) \<subseteq> set ''0123456789''"
proof (induction n rule: str_nat.induct)
  case (1 n)
  show ?case
  proof (cases "n < 10")
    case True
    then have "str_nat n = [digit_char n]" by (subst str_nat.simps) simp
    with digit_char_in_digits [OF True] show ?thesis by simp
  next
    case False
    then have eq: "str_nat n = str_nat (n div 10) @ [digit_char (n mod 10)]"
      by (subst str_nat.simps) simp
    have "n mod 10 < 10" by simp
    from digit_char_in_digits [OF this] 1 [OF False] show ?thesis
      unfolding eq by simp
  qed
qed

lemma str_nat_not_Nil: "str_nat n \<noteq> []"
  by (subst str_nat.simps) simp

lemma str_nat_length_one: "length (str_nat n) = 1 \<longleftrightarrow> n < 10"
proof (cases "n < 10")
  case True
  then have "str_nat n = [digit_char n]" by (subst str_nat.simps) simp
  with True show ?thesis by simp
next
  case False
  then have "str_nat n = str_nat (n div 10) @ [digit_char (n mod 10)]"
    by (subst str_nat.simps) simp
  moreover have "length (str_nat (n div 10)) > 0" using str_nat_not_Nil by blast
  ultimately show ?thesis using False by simp
qed

lemma str_nat_inj: "str_nat n = str_nat m \<Longrightarrow> n = m"
proof (induction n arbitrary: m rule: str_nat.induct)
  case (1 n)
  show ?case
  proof (cases "n < 10")
    case True
    with "1.prems" have m: "m < 10"
      using str_nat_length_one [of n] str_nat_length_one [of m] by simp
    from True have "str_nat n = [digit_char n]" by (subst str_nat.simps) simp
    moreover from m have "str_nat m = [digit_char m]" by (subst str_nat.simps) simp
    ultimately have "digit_char n = digit_char m" using "1.prems" by simp
    with True m show ?thesis by (rule digit_char_inj)
  next
    case False
    with "1.prems" have m: "\<not> m < 10"
      using str_nat_length_one [of n] str_nat_length_one [of m] by simp
    from False have n_eq: "str_nat n = str_nat (n div 10) @ [digit_char (n mod 10)]"
      by (subst str_nat.simps) simp
    from m have m_eq: "str_nat m = str_nat (m div 10) @ [digit_char (m mod 10)]"
      by (subst str_nat.simps) simp
    from "1.prems" have "str_nat (n div 10) = str_nat (m div 10)"
      and d: "digit_char (n mod 10) = digit_char (m mod 10)"
      unfolding n_eq m_eq by simp_all
    with "1.IH" [OF False] have "n div 10 = m div 10" by blast
    moreover have "n mod 10 = m mod 10"
      by (rule digit_char_inj [OF _ _ d]) simp_all
    ultimately show ?thesis by (metis div_mult_mod_eq)
  qed
qed

lemma str_int_inj: "str_int i = str_int j \<Longrightarrow> i = j"
proof -
  assume eq: "str_int i = str_int j"
  have no_minus: "hd (str_nat n) \<noteq> CHR ''-''" for n
  proof -
    have "hd (str_nat n) \<in> set (str_nat n)" using str_nat_not_Nil by simp
    with str_nat_digits have "hd (str_nat n) \<in> set ''0123456789''" by blast
    then show ?thesis by auto
  qed
  show ?thesis
  proof (cases "i < 0"; cases "j < 0")
    assume "i < 0" "j < 0"
    with eq have "str_nat (nat (- i)) = str_nat (nat (- j))" by (simp add: str_int_def)
    then have "nat (- i) = nat (- j)" by (rule str_nat_inj)
    with \<open>i < 0\<close> \<open>j < 0\<close> show ?thesis by simp
  next
    assume "i < 0" "\<not> j < 0"
    with eq have "CHR ''-'' # str_nat (nat (- i)) = str_nat (nat j)" by (simp add: str_int_def)
    then have "hd (str_nat (nat j)) = CHR ''-''" by (metis list.sel(1))
    with no_minus show ?thesis by blast
  next
    assume "\<not> i < 0" "j < 0"
    with eq have "str_nat (nat i) = CHR ''-'' # str_nat (nat (- j))" by (simp add: str_int_def)
    then have "hd (str_nat (nat i)) = CHR ''-''" by (metis list.sel(1))
    with no_minus show ?thesis by blast
  next
    assume "\<not> i < 0" "\<not> j < 0"
    with eq have "str_nat (nat i) = str_nat (nat j)" by (simp add: str_int_def)
    then have "nat i = nat j" by (rule str_nat_inj)
    with \<open>\<not> i < 0\<close> \<open>\<not> j < 0\<close> show ?thesis by simp
  qed
qed

lemma str_int_no_underscore: "CHR ''_'' \<notin> set (str_int k)"
proof -
  have "CHR ''_'' \<notin> set (str_nat n)" for n
    using str_nat_digits [of n] by auto
  then show ?thesis by (simp add: str_int_def)
qed

lemma split_at_last:
  assumes "xs @ c # ys = xs' @ c # ys'" "c \<notin> set ys" "c \<notin> set ys'"
  shows "xs = xs' \<and> ys = ys'"
proof -
  from assms(1) have "rev (xs @ c # ys) = rev (xs' @ c # ys')" by simp
  then have eq: "rev ys @ c # rev xs = rev ys' @ c # rev xs'" by simp
  have "takeWhile (\<lambda>x. x \<noteq> c) (rev ys @ c # rev xs) = rev ys"
    using assms(2) by (subst takeWhile_append2) auto
  moreover have "takeWhile (\<lambda>x. x \<noteq> c) (rev ys' @ c # rev xs') = rev ys'"
    using assms(3) by (subst takeWhile_append2) auto
  ultimately have "rev ys = rev ys'" using eq by simp
  then have "ys = ys'" by simp
  with assms(1) show ?thesis by simp
qed

lemma derived_message_id_inj:
  assumes "derived_message_id s j = derived_message_id t k"
  shows "s = t \<and> j = k"
proof -
  from assms have "s @ CHR ''_'' # str_int j = t @ CHR ''_'' # str_int k"
    by (simp add: derived_message_id_def)
  from split_at_last [OF this str_int_no_underscore str_int_no_underscore]
  show ?thesis using str_int_inj by blast
qed

section \<open>An ingest whose writes all pass\<close>

lemma message_exists_iff:
  "message_exists st sid s t \<longleftrightarrow> (s, t) \<in> set (dedup_keys st sid)"
  by (auto simp add: message_exists_def dedup_keys_def dedup_key_def session_messages_def
      filter_empty_conv)

lemma fresh_after_write:
  assumes "\<forall>j > mo. derived_message_id sid j \<notin> set (map message_id (chat_messages st))"
    and "message_id row = derived_message_id sid (mo + 1)"
  shows "\<forall>j > mo + 1. derived_message_id sid j
           \<notin> set (map message_id (chat_messages (st\<lparr>chat_messages := chat_messages st @ [row]\<rparr>)))"
proof (intro allI impI)
  fix j :: int
  assume j: "mo + 1 < j"
  then have "derived_message_id sid j \<notin> set (map message_id (chat_messages st))"
    using assms(1) by simp
  moreover have "derived_message_id sid j \<noteq> message_id row"
    using derived_message_id_inj [of sid j sid "mo + 1"] j assms(2) by auto
  ultimately show "derived_message_id sid j
      \<notin> set (map message_id (chat_messages (st\<lparr>chat_messages := chat_messages st @ [row]\<rparr>)))"
    by auto
qed

lemma dedup_keys_after_write:
  assumes "m_session_id row = sid"
  shows "set (dedup_keys (st\<lparr>chat_messages := chat_messages st @ [row]\<rparr>) sid) =
           insert (dedup_key row) (set (dedup_keys st sid))"
  using assms by (simp add: dedup_keys_def session_messages_def)

text \<open>The rows an ingest appends when every write passes: one row per genuinely new key, in
  batch order, numbered upwards from the counter.\<close>

lemma ingest_loop_success:
  assumes "complete_batch batch"
    and "\<forall>j > mo. derived_message_id sid j \<notin> set (map message_id (chat_messages st))"
  shows "\<exists>new. ingest_loop sid now batch (st, mo, k) =
             Inr (st\<lparr>chat_messages := chat_messages st @ new\<rparr>, mo + int (length new),
                  k + length new)
           \<and> map dedup_key new = new_keys (set (dedup_keys st sid)) (batch_keys batch)
           \<and> (\<forall>i < length new. message_order (new ! i) = mo + 1 + int i)
           \<and> (\<forall>row \<in> set new. m_session_id row = sid
                 \<and> message_id row = derived_message_id sid (message_order row)
                 \<and> scraped_at row = now \<and> (\<exists>msg \<in> set batch. from_message msg row))"
  using assms
proof (induction batch arbitrary: st mo k)
  case Nil
  show ?case by (intro exI [of _ "[]"]) simp
next
  case (Cons msg rest)
  from Cons.prems(1) have complete: "complete_message msg" and rest: "complete_batch rest"
    by (simp_all add: complete_batch_def)
  show ?case
  proof (cases rule: ingest_loop_cases [where msg=msg and st=st and sid=sid and mo=mo])
    case missing_key
    with complete show ?thesis by (auto simp add: complete_message_def)
  next
    case (duplicate s t)
    from Cons.IH [OF rest Cons.prems(2), of k] obtain new where
      loop: "ingest_loop sid now rest (st, mo, k) =
             Inr (st\<lparr>chat_messages := chat_messages st @ new\<rparr>, mo + int (length new),
                  k + length new)"
      and keys: "map dedup_key new = new_keys (set (dedup_keys st sid)) (batch_keys rest)"
      and orders: "\<forall>i < length new. message_order (new ! i) = mo + 1 + int i"
      and rows: "\<forall>row \<in> set new. m_session_id row = sid
                 \<and> message_id row = derived_message_id sid (message_order row)
                 \<and> scraped_at row = now \<and> (\<exists>msg \<in> set rest. from_message msg row)"
      by blast
    have "(s, t) \<in> set (dedup_keys st sid)"
      using duplicate(3) by (simp add: message_exists_iff)
    with duplicate keys
    have keys': "map dedup_key new = new_keys (set (dedup_keys st sid)) (batch_keys (msg # rest))"
      by simp
    from rows have rows': "\<forall>row \<in> set new. m_session_id row = sid
                 \<and> message_id row = derived_message_id sid (message_order row)
                 \<and> scraped_at row = now \<and> (\<exists>m \<in> set (msg # rest). from_message m row)"
      by fastforce
    show ?thesis
      unfolding ingest_loop_duplicate [OF duplicate]
      using loop keys' orders rows' by (intro exI [of _ new]) simp
  next
    case (written s t sty ts)
    let ?row = "\<lparr> m_session_id = sid, message_id = derived_message_id sid (mo + 1),
                      sender = s, sender_type = sty, message_text = t,
                      timestamp = numeric_affinity ts,
                      message_order = mo + 1, scraped_at = now \<rparr>"
    let ?st1 = "st\<lparr>chat_messages := chat_messages st @ [?row]\<rparr>"
    have fresh1: "\<forall>j > mo + 1. derived_message_id sid j
           \<notin> set (map message_id (chat_messages ?st1))"
      by (rule fresh_after_write [OF Cons.prems(2)]) simp
    from Cons.IH [OF rest fresh1, of "k + 1"] obtain new where
      loop: "ingest_loop sid now rest (?st1, mo + 1, k + 1) =
             Inr (?st1\<lparr>chat_messages := chat_messages ?st1 @ new\<rparr>, mo + 1 + int (length new),
                  k + 1 + length new)"
      and keys: "map dedup_key new = new_keys (set (dedup_keys ?st1 sid)) (batch_keys rest)"
      and orders: "\<forall>i < length new. message_order (new ! i) = mo + 1 + 1 + int i"
      and rows: "\<forall>row \<in> set new. m_session_id row = sid
                 \<and> message_id row = derived_message_id sid (message_order row)
                 \<and> scraped_at row = now \<and> (\<exists>msg \<in> set rest. from_message msg row)"
      by blast
    have notin: "(s, t) \<notin> set (dedup_keys st sid)"
      using written(3) by (simp add: message_exists_iff)
    have "set (dedup_keys ?st1 sid) = insert (s, t) (set (dedup_keys st sid))"
      using dedup_keys_after_write [of ?row sid st] by (simp add: dedup_key_def)
    with keys notin written(1,2)
    have keys': "map dedup_key (?row # new) =
        new_keys (set (dedup_keys st sid)) (batch_keys (msg # rest))"
      by (simp add: dedup_key_def)
    have orders': "\<forall>i < length (?row # new). message_order ((?row # new) ! i) = mo + 1 + int i"
    proof (intro allI impI)
      fix i assume "i < length (?row # new)"
      then show "message_order ((?row # new) ! i) = mo + 1 + int i"
        using orders by (cases i) simp_all
    qed
    have "from_message msg ?row" using written by (simp add: from_message_def)
    with rows have rows': "\<forall>row \<in> set (?row # new). m_session_id row = sid
                 \<and> message_id row = derived_message_id sid (message_order row)
                 \<and> scraped_at row = now \<and> (\<exists>m \<in> set (msg # rest). from_message m row)"
      by fastforce
    have res: "ingest_loop sid now (msg # rest) (st, mo, k) =
        Inr (st\<lparr>chat_messages := chat_messages st @ ?row # new\<rparr>,
             mo + int (length (?row # new)), k + length (?row # new))"
      unfolding ingest_loop_written [OF written] loop by simp
    show ?thesis
      using res keys' orders' rows' by (intro exI [of _ "?row # new"]) blast
  next
    case (not_written s t)
    from Cons.prems(2) have "derived_message_id sid (mo + 1)
        \<notin> set (map message_id (chat_messages st))"
      by simp
    with not_written(4) complete show ?thesis
      by (auto simp add: complete_message_def)
  qed
qed

lemma set_new_keys: "set (new_keys seen ks) = set ks - seen"
  by (induction ks arbitrary: seen) auto

lemma distinct_new_keys: "distinct (new_keys seen ks)"
  by (induction ks arbitrary: seen) (auto simp add: set_new_keys)

lemma set_batch_keys_complete:
  assumes "complete_batch batch" "msg \<in> set batch"
  shows "\<exists>s t. r_sender msg = Some s \<and> r_text msg = Some t \<and> (s, t) \<in> set (batch_keys batch)"
  using assms
proof (induction batch)
  case Nil
  then show ?case by simp
next
  case (Cons m rest)
  from Cons.prems(1) have "complete_message m" "complete_batch rest"
    by (simp_all add: complete_batch_def)
  then obtain s t where m: "r_sender m = Some s" "r_text m = Some t"
    by (auto simp add: complete_message_def)
  show ?case
  proof (cases "msg = m")
    case True
    with m show ?thesis by simp
  next
    case False
    with Cons.prems(2) have "msg \<in> set rest" by simp
    from Cons.IH [OF \<open>complete_batch rest\<close> this] m show ?thesis by auto
  qed
qed

text \<open>A batch all of whose keys the session already holds is skipped message by message.\<close>

lemma ingest_loop_all_known:
  assumes "\<forall>msg \<in> set batch. \<exists>s t. r_sender msg = Some s \<and> r_text msg = Some t
             \<and> (s, t) \<in> set (dedup_keys st sid)"
  shows "ingest_loop sid now batch (st, mo, k) = Inr (st, mo, k)"
  using assms
proof (induction batch)
  case Nil
  show ?case by simp
next
  case (Cons msg rest)
  then obtain s t where "r_sender msg = Some s" "r_text msg = Some t"
    "message_exists st sid s t"
    by (auto simp add: message_exists_iff)
  then have "ingest_loop sid now (msg # rest) (st, mo, k) = ingest_loop sid now rest (st, mo, k)"
    by (rule ingest_loop_duplicate)
  with Cons show ?case by simp
qed

lemma max_message_order_append:
  assumes app: "session_messages st' sid = session_messages st sid @ new"
    and orders: "\<forall>i < length new. message_order (new ! i) = max_message_order st sid + 1 + int i"
  shows "max_message_order st' sid = max_message_order st sid + int (length new)"
proof (cases "new = []")
  case True
  with app show ?thesis by (simp add: max_message_order_def)
next
  case False
  let ?mo = "max_message_order st sid"
  let ?os = "map message_order (session_messages st' sid)"
  have last_in: "?mo + int (length new) \<in> set ?os"
  proof -
    from False have "length new - 1 < length new" by simp
    with orders have "message_order (new ! (length new - 1)) = ?mo + 1 + int (length new - 1)"
      by blast
    also have "\<dots> = ?mo + int (length new)" using False by (simp add: of_nat_diff Suc_leI)
    finally have "message_order (new ! (length new - 1)) = ?mo + int (length new)" .
    moreover have "new ! (length new - 1) \<in> set new" using False by simp
    ultimately show ?thesis using app by force
  qed
  have upper: "\<forall>x \<in> set ?os. x \<le> ?mo + int (length new)"
  proof
    fix x assume "x \<in> set ?os"
    then obtain row where row: "row \<in> set (session_messages st sid) \<union> set new"
      and x: "x = message_order row"
      using app by auto
    show "x \<le> ?mo + int (length new)"
    proof (cases "row \<in> set new")
      case True
      then obtain i where "i < length new" "new ! i = row" by (auto simp add: in_set_conv_nth)
      with orders x show ?thesis by auto
    next
      case no: False
      with row have "row \<in> set (session_messages st sid)" by simp
      then have "message_order row \<le> ?mo" by (rule max_message_order_ge)
      with x show ?thesis by simp
    qed
  qed
  have "?os \<noteq> []" using app False by simp
  moreover have "Max (set ?os) = ?mo + int (length new)"
    using last_in upper by (intro Max_eqI) auto
  ultimately show ?thesis by (simp add: max_message_order_def Let_def)
qed

lemma session_messages_append_own:
  assumes "\<forall>row \<in> set new. m_session_id row = sid"
  shows "session_messages (st\<lparr>chat_messages := chat_messages st @ new\<rparr>) sid =
           session_messages st sid @ new"
  using assms by (simp add: session_messages_def filter_id_conv)

lemma session_messages_refresh_append:
  assumes "\<forall>row \<in> set new. m_session_id row = sid"
  shows "session_messages (refresh_rollup (st\<lparr>chat_messages := chat_messages st @ new\<rparr>) sid now) sid
           = session_messages st sid @ new"
  using session_messages_append_own [OF assms] by simp

text \<open>One ingest of a complete batch into a session whose next keys are unused.\<close>

lemma update_existing_session_success:
  assumes "complete_batch batch" and "keys_unused st sid"
  shows "\<exists>new. update_existing_session st sid batch now =
             Inr (refresh_rollup (st\<lparr>chat_messages := chat_messages st @ new\<rparr>) sid now, length new)
           \<and> map dedup_key new = new_keys (set (dedup_keys st sid)) (batch_keys batch)
           \<and> (\<forall>i < length new. message_order (new ! i) = max_message_order st sid + 1 + int i)
           \<and> (\<forall>row \<in> set new. m_session_id row = sid
                 \<and> message_id row = derived_message_id sid (message_order row)
                 \<and> scraped_at row = now \<and> (\<exists>msg \<in> set batch. from_message msg row))
           \<and> keys_unused (refresh_rollup (st\<lparr>chat_messages := chat_messages st @ new\<rparr>) sid now) sid"
proof -
  let ?mo = "max_message_order st sid"
  from assms(2) have fresh: "\<forall>j > ?mo. derived_message_id sid j
      \<notin> set (map message_id (chat_messages st))"
    by (simp add: keys_unused_def)
  from ingest_loop_success [OF assms(1) fresh, of now 0] obtain new where
    loop: "ingest_loop sid now batch (st, ?mo, 0) =
             Inr (st\<lparr>chat_messages := chat_messages st @ new\<rparr>, ?mo + int (length new),
                  0 + length new)"
    and keys: "map dedup_key new = new_keys (set (dedup_keys st sid)) (batch_keys batch)"
    and orders: "\<forall>i < length new. message_order (new ! i) = ?mo + 1 + int i"
    and rows: "\<forall>row \<in> set new. m_session_id row = sid
                 \<and> message_id row = derived_message_id sid (message_order row)
                 \<and> scraped_at row = now \<and> (\<exists>msg \<in> set batch. from_message msg row)"
    by blast
  let ?st' = "refresh_rollup (st\<lparr>chat_messages := chat_messages st @ new\<rparr>) sid now"
  have res: "update_existing_session st sid batch now = Inr (?st', length new)"
    using loop by (simp add: update_existing_session_def get_connection_def)
  have own: "\<forall>row \<in> set new. m_session_id row = sid" using rows by blast
  have mo': "max_message_order ?st' sid = ?mo + int (length new)"
    by (rule max_message_order_append [OF session_messages_refresh_append [OF own] orders])
  have "keys_unused ?st' sid"
    unfolding keys_unused_def mo'
  proof (intro allI impI)
    fix j :: int
    assume j: "?mo + int (length new) < j"
    then have old: "derived_message_id sid j \<notin> set (map message_id (chat_messages st))"
      using fresh by simp
    have "derived_message_id sid j \<noteq> message_id row" if "row \<in> set new" for row
    proof -
      from that obtain i where i: "i < length new" "new ! i = row"
        by (auto simp add: in_set_conv_nth)
      with orders have "message_order row = ?mo + 1 + int i" by blast
      with i j have "message_order row < j" by simp
      moreover from rows that have "message_id row = derived_message_id sid (message_order row)"
        by blast
      ultimately show ?thesis using derived_message_id_inj [of sid j sid "message_order row"]
        by auto
    qed
    with old show "derived_message_id sid j \<notin> set (map message_id (chat_messages ?st'))"
      by auto
  qed
  with res keys orders rows show ?thesis by blast
qed

lemma refresh_rollup_totals:
  assumes "\<forall>s \<in> set (chat_sessions st). session_id s = sid \<longrightarrow> total_messages s = message_count st sid"
  shows "map total_messages (chat_sessions (refresh_rollup st sid now)) =
           map total_messages (chat_sessions st)"
  using assms by (simp add: refresh_rollup_sessions)

lemma refresh_rollup_rolled:
  "\<forall>s \<in> set (chat_sessions (refresh_rollup st sid now)).
      session_id s = sid \<longrightarrow> total_messages s = message_count (refresh_rollup st sid now) sid"
proof (intro ballI impI)
  fix s
  assume "s \<in> set (chat_sessions (refresh_rollup st sid now))" and sid: "session_id s = sid"
  then obtain x where x: "x \<in> set (chat_sessions st)"
    and s: "s = (if session_id x = sid
                 then x\<lparr>last_activity := now, total_messages := message_count st sid\<rparr> else x)"
    by (auto simp add: refresh_rollup_sessions)
  have "session_id x = sid"
    using s sid by (cases "session_id x = sid") simp_all
  with s have "total_messages s = message_count st sid" by simp
  then show "total_messages s = message_count (refresh_rollup st sid now) sid" by simp
qed

lemma refresh_rollup_same_messages:
  assumes "chat_messages st' = chat_messages st"
  shows "message_count st' sid = message_count st sid"
  using assms by (simp add: message_count_def session_messages_def)

section \<open>One batch ingested twice\<close>

text \<open>
  Let every message of the batch carry its four fields, and let none of the message keys
  that the session would be given next be stored already. Then the first ingest returns,
  and ingesting the same batch again skips every message because its dedup key is in the
  session: the second call returns 0 and leaves the message rows, the session's dedup
  keys, its live count and its stored total as the first call left them.
\<close>

lemma reingest_with_unused_keys:
  assumes "complete_batch batch" and "keys_unused st sid"
  shows "\<exists>st1 n1 st2. update_existing_session st sid batch t1 = Inr (st1, n1)
           \<and> update_existing_session st1 sid batch t2 = Inr (st2, 0)
           \<and> set (batch_keys batch) \<subseteq> set (dedup_keys st1 sid)
           \<and> chat_messages st2 = chat_messages st1
           \<and> dedup_keys st2 sid = dedup_keys st1 sid
           \<and> message_count st2 sid = message_count st1 sid
           \<and> map total_messages (chat_sessions st2) = map total_messages (chat_sessions st1)"
proof -
  from update_existing_session_success [OF assms, of t1] obtain new where
    first: "update_existing_session st sid batch t1 =
             Inr (refresh_rollup (st\<lparr>chat_messages := chat_messages st @ new\<rparr>) sid t1, length new)"
    and keys: "map dedup_key new = new_keys (set (dedup_keys st sid)) (batch_keys batch)"
    and rows: "\<forall>row \<in> set new. m_session_id row = sid"
    by blast
  let ?st1 = "refresh_rollup (st\<lparr>chat_messages := chat_messages st @ new\<rparr>) sid t1"
  have "dedup_keys ?st1 sid = dedup_keys st sid @ map dedup_key new"
    using session_messages_refresh_append [OF rows] by (simp add: dedup_keys_def)
  with keys have known: "set (batch_keys batch) \<subseteq> set (dedup_keys ?st1 sid)"
    by (auto simp add: set_new_keys)
  have "\<forall>msg \<in> set batch. \<exists>s t. r_sender msg = Some s \<and> r_text msg = Some t
             \<and> (s, t) \<in> set (dedup_keys ?st1 sid)"
    using set_batch_keys_complete [OF assms(1)] known by blast
  then have loop2: "ingest_loop sid t2 batch (?st1, max_message_order ?st1 sid, 0) =
      Inr (?st1, max_message_order ?st1 sid, 0)"
    by (rule ingest_loop_all_known)
  let ?st2 = "refresh_rollup ?st1 sid t2"
  have second: "update_existing_session ?st1 sid batch t2 = Inr (?st2, 0)"
    using loop2 by (simp add: update_existing_session_def get_connection_def)
  have msgs: "chat_messages ?st2 = chat_messages ?st1" by simp
  have totals: "map total_messages (chat_sessions ?st2) = map total_messages (chat_sessions ?st1)"
    by (rule refresh_rollup_totals [OF refresh_rollup_rolled])
  have "dedup_keys ?st2 sid = dedup_keys ?st1 sid"
    by (simp add: dedup_keys_def)
  moreover have "message_count ?st2 sid = message_count ?st1 sid"
    by simp
  ultimately show ?thesis
    using first second known msgs totals by blast
qed

section \<open>Two batches ingested in turn\<close>

text \<open>
  Let every message of the two batches carry its four fields, and let none of the message
  keys that the session would be given next be stored already. Then both ingests return;
  each only appends rows, so a message stored by the first ingest keeps its row and order
  position; the session ends up with the keys it had and the keys of both batches, each
  new key stored once; and the rows of the second ingest are the genuinely new messages of
  the second batch in batch order, the first of them at the session's maximum order plus
  one and each next one a position higher.
\<close>

lemma overlapping_batches_with_unused_keys:
  assumes "complete_batch b1" and "complete_batch b2" and "keys_unused st sid"
  shows "\<exists>st1 st2 new1 new2.
           update_existing_session st sid b1 t1 = Inr (st1, length new1)
           \<and> update_existing_session st1 sid b2 t2 = Inr (st2, length new2)
           \<and> chat_messages st1 = chat_messages st @ new1
           \<and> chat_messages st2 = chat_messages st1 @ new2
           \<and> session_messages st2 sid = session_messages st sid @ new1 @ new2
           \<and> set (dedup_keys st2 sid)
               = set (dedup_keys st sid) \<union> set (batch_keys b1) \<union> set (batch_keys b2)
           \<and> distinct (map dedup_key (new1 @ new2))
           \<and> set (map dedup_key (new1 @ new2)) \<inter> set (dedup_keys st sid) = {}
           \<and> map dedup_key new2 = new_keys (set (dedup_keys st1 sid)) (batch_keys b2)
           \<and> (\<forall>i < length new2. message_order (new2 ! i) = max_message_order st1 sid + 1 + int i)
           \<and> (\<forall>row \<in> set new2. \<exists>msg \<in> set b2. from_message msg row)"
proof -
  from update_existing_session_success [OF assms(1,3), of t1] obtain new1 where
    first: "update_existing_session st sid b1 t1 =
             Inr (refresh_rollup (st\<lparr>chat_messages := chat_messages st @ new1\<rparr>) sid t1, length new1)"
    and keys1: "map dedup_key new1 = new_keys (set (dedup_keys st sid)) (batch_keys b1)"
    and rows1: "\<forall>row \<in> set new1. m_session_id row = sid"
    and unused1: "keys_unused (refresh_rollup (st\<lparr>chat_messages := chat_messages st @ new1\<rparr>) sid t1) sid"
    by blast
  let ?st1 = "refresh_rollup (st\<lparr>chat_messages := chat_messages st @ new1\<rparr>) sid t1"
  from update_existing_session_success [OF assms(2) unused1, of t2] obtain new2 where
    second: "update_existing_session ?st1 sid b2 t2 =
             Inr (refresh_rollup (?st1\<lparr>chat_messages := chat_messages ?st1 @ new2\<rparr>) sid t2, length new2)"
    and keys2: "map dedup_key new2 = new_keys (set (dedup_keys ?st1 sid)) (batch_keys b2)"
    and orders2: "\<forall>i < length new2. message_order (new2 ! i) = max_message_order ?st1 sid + 1 + int i"
    and rows2: "\<forall>row \<in> set new2. m_session_id row = sid \<and> (\<exists>msg \<in> set b2. from_message msg row)"
    by blast
  let ?st2 = "refresh_rollup (?st1\<lparr>chat_messages := chat_messages ?st1 @ new2\<rparr>) sid t2"
  have m1: "chat_messages ?st1 = chat_messages st @ new1" by simp
  have m2: "chat_messages ?st2 = chat_messages ?st1 @ new2" by simp
  have s1: "session_messages ?st1 sid = session_messages st sid @ new1"
    by (rule session_messages_refresh_append [OF rows1])
  have own2: "\<forall>row \<in> set new2. m_session_id row = sid" using rows2 by blast
  have s2: "session_messages ?st2 sid = session_messages ?st1 sid @ new2"
    by (rule session_messages_refresh_append [OF own2])
  have k1: "dedup_keys ?st1 sid = dedup_keys st sid @ map dedup_key new1"
    using s1 by (simp add: dedup_keys_def)
  have k2: "dedup_keys ?st2 sid = dedup_keys ?st1 sid @ map dedup_key new2"
    using s2 by (simp add: dedup_keys_def)
  have union: "set (dedup_keys ?st2 sid)
      = set (dedup_keys st sid) \<union> set (batch_keys b1) \<union> set (batch_keys b2)"
    unfolding k2 k1 keys2 keys1 by (auto simp add: set_new_keys k1 keys1)
  have d1: "distinct (map dedup_key new1)" unfolding keys1 by (rule distinct_new_keys)
  have d2: "distinct (map dedup_key new2)" unfolding keys2 by (rule distinct_new_keys)
  have disj12: "set (map dedup_key new1) \<inter> set (map dedup_key new2) = {}"
    unfolding keys2 set_new_keys k1 by auto
  have disj0: "set (map dedup_key (new1 @ new2)) \<inter> set (dedup_keys st sid) = {}"
  proof -
    have "set (map dedup_key new1) \<inter> set (dedup_keys st sid) = {}"
      unfolding keys1 set_new_keys by auto
    moreover have "set (map dedup_key new2) \<inter> set (dedup_keys st sid) = {}"
      unfolding keys2 set_new_keys k1 by auto
    ultimately show ?thesis by auto
  qed
  have dist: "distinct (map dedup_key (new1 @ new2))"
    using d1 d2 disj12 by simp
  have all: "session_messages ?st2 sid = session_messages st sid @ new1 @ new2"
    using s1 s2 by simp
  from rows2 have from2: "\<forall>row \<in> set new2. \<exists>msg \<in> set b2. from_message msg row" by blast
  show ?thesis
    using first second m1 m2 all union dist disj0 keys2 orders2 from2 by blast
qed

section \<open>Joining and splitting session ids\<close>

lemma py_split_not_Nil: "py_split c s \<noteq> []"
  by (induction s) (auto split: list.splits)

lemma py_split_no_separator:
  assumes "c \<notin> set x"
  shows "py_split c x = [x]"
  using assms by (induction x) auto

lemma py_split_at_separator:
  assumes "c \<notin> set x"
  shows "py_split c (x @ c # rest) = x # py_split c rest"
  using assms
proof (induction x)
  case Nil
  show ?case by simp
next
  case (Cons a x)
  then have "py_split c (x @ c # rest) = x # py_split c rest" by simp
  with Cons.prems show ?case by auto
qed

lemma py_split_join_with:
  assumes "xs \<noteq> []" and "\<forall>x \<in> set xs. c \<notin> set x"
  shows "py_split c (join_with c xs) = xs"
  using assms
proof (induction c xs rule: join_with.induct)
  case (1 c)
  then show ?case by simp
next
  case (2 c x)
  then show ?case by (simp add: py_split_no_separator)
next
  case (3 c x y ys)
  then have "py_split c (join_with c (y # ys)) = y # ys" by simp
  with 3 show ?case by (simp add: py_split_at_separator)
qed

section \<open>The duplicate groups\<close>

lemma set_by_size_then_recency [simp]: "set (by_size_then_recency rows) = set rows"
  by (simp add: by_size_then_recency_def)

lemma length_by_size_then_recency [simp]: "length (by_size_then_recency rows) = length rows"
  by (simp add: by_size_then_recency_def)

lemma distinct_map_by_size_then_recency:
  "distinct (map f (by_size_then_recency rows)) = distinct (map f rows)"
  by (simp add: by_size_then_recency_def distinct_map)

lemma group_members_subset: "set (group_members st fp) \<subseteq> set (chat_sessions st)"
  by (auto simp add: group_members_def groupable_sessions_def)

lemma group_members_fingerprint:
  "s \<in> set (group_members st fp) \<Longrightarrow> fingerprint_of s = fp"
  by (simp add: group_members_def)

text \<open>With comma-free ids a group's id list is the ids of its members, largest first.\<close>

lemma group_row_ids:
  assumes "comma_free_ids st" and "group_members st fp \<noteq> []"
  shows "session_ids (group_row st fp) = map session_id (by_size_then_recency (group_members st fp))"
    and "keep_session (group_row st fp) # remove_sessions (group_row st fp)
           = map session_id (by_size_then_recency (group_members st fp))"
    and "dg_fingerprint (group_row st fp) = fp"
proof -
  let ?ids = "map session_id (by_size_then_recency (group_members st fp))"
  have ne: "?ids \<noteq> []"
    using assms(2) by (metis length_by_size_then_recency length_0_conv map_is_Nil_conv)
  have "\<forall>x \<in> set ?ids. CHR '','' \<notin> set x"
    using assms(1) group_members_subset [of st fp]
    by (auto simp add: comma_free_ids_def list_all_iff)
  with ne have split: "py_split CHR '','' (join_with CHR '','' ?ids) = ?ids"
    by (rule py_split_join_with)
  show "session_ids (group_row st fp) = ?ids"
    by (simp add: group_row_def Let_def split)
  show "keep_session (group_row st fp) # remove_sessions (group_row st fp) = ?ids"
    using ne by (simp add: group_row_def Let_def split)
  show "dg_fingerprint (group_row st fp) = fp"
    by (simp add: group_row_def Let_def)
qed

lemma find_duplicate_chat_sessions_set:
  "set (find_duplicate_chat_sessions st) =
     group_row st ` {fp \<in> set (map fingerprint_of (groupable_sessions st)).
                      length (group_members st fp) > 1}"
  by (auto simp add: find_duplicate_chat_sessions_def)

lemma find_duplicate_chat_sessions_member:
  assumes "g \<in> set (find_duplicate_chat_sessions st)"
  obtains fp where "g = group_row st fp" "length (group_members st fp) > 1"
  using assms unfolding find_duplicate_chat_sessions_set by blast

lemma find_duplicate_chat_sessions_Nil:
  "find_duplicate_chat_sessions st = [] \<longleftrightarrow> (\<forall>fp. length (group_members st fp) \<le> 1)"
proof
  assume "find_duplicate_chat_sessions st = []"
  then have none: "{fp \<in> set (map fingerprint_of (groupable_sessions st)).
                      length (group_members st fp) > 1} = {}"
    using find_duplicate_chat_sessions_set [of st] by simp
  show "\<forall>fp. length (group_members st fp) \<le> 1"
  proof
    fix fp
    show "length (group_members st fp) \<le> 1"
    proof (cases "fp \<in> set (map fingerprint_of (groupable_sessions st))")
      case True
      with none have "\<not> length (group_members st fp) > 1" by blast
      then show ?thesis by simp
    next
      case False
      then have "group_members st fp = []"
        by (auto simp add: group_members_def filter_empty_conv)
      then show ?thesis by simp
    qed
  qed
next
  assume "\<forall>fp. length (group_members st fp) \<le> 1"
  then have "{fp \<in> set (map fingerprint_of (groupable_sessions st)).
                      length (group_members st fp) > 1} = {}"
    by (auto simp add: not_less)
  then have "set (find_duplicate_chat_sessions st) = {}"
    unfolding find_duplicate_chat_sessions_set by simp
  then show "find_duplicate_chat_sessions st = []" by simp
qed

section \<open>Sessions after a merge\<close>

lemma merge_sessions_chat_sessions:
  "chat_sessions (fst (merge_sessions keep removes (st, mo, stats))) =
     filter (\<lambda>s. session_id s \<notin> set removes) (chat_sessions st)"
proof (induction removes arbitrary: st mo stats)
  case Nil
  show ?case by simp
next
  case (Cons r rest)
  obtain st1 mo1 stats1 where
    mm: "merge_messages keep (sort_key message_order (session_messages st r)) (st, mo, stats)
          = (st1, mo1, stats1)"
    by (metis prod_cases3)
  from merge_messages_effect [OF mm] have "chat_sessions st1 = chat_sessions st" by blast
  then have "chat_sessions (delete_session st1 r) =
      filter (\<lambda>s. session_id s \<noteq> r) (chat_sessions st)"
    by (simp add: delete_session_def)
  then show ?case
    unfolding merge_sessions_step [OF mm] Cons.IH by (simp add: conj_commute)
qed

lemma merge_chat_sessions_chat_sessions:
  "chat_sessions (fst (merge_chat_sessions st keep removes now)) =
     map (\<lambda>s. if session_id s = keep
               then s\<lparr>last_activity := now,
                      total_messages :=
                        message_count (fst (merge_chat_sessions st keep removes now)) keep\<rparr>
               else s)
       (filter (\<lambda>s. session_id s \<notin> set removes) (chat_sessions st))"
proof -
  let ?stats = "\<lparr> messages_merged = 0, duplicate_messages_skipped = 0, sessions_removed = 0,
                    total_messages_before = message_count st keep, total_messages_after = 0 \<rparr>"
  let ?st1 = "fst (merge_sessions keep removes (st, max_message_order st keep, ?stats))"
  have st': "fst (merge_chat_sessions st keep removes now) = refresh_rollup ?st1 keep now"
    by (simp add: merge_chat_sessions_def Let_def split_beta)
  show ?thesis
    unfolding st' by (simp add: refresh_rollup_sessions merge_sessions_chat_sessions)
qed

lemma merge_chat_sessions_identities:
  "\<exists>f. (\<forall>s. same_identity (f s) s)
       \<and> chat_sessions (fst (merge_chat_sessions st keep removes now)) =
           map f (filter (\<lambda>s. session_id s \<notin> set removes) (chat_sessions st))"
proof -
  let ?f = "\<lambda>s. if session_id s = keep
               then s\<lparr>last_activity := now,
                      total_messages :=
                        message_count (fst (merge_chat_sessions st keep removes now)) keep\<rparr>
               else s"
  have "\<forall>s. same_identity (?f s) s" by (simp add: same_identity_def)
  with merge_chat_sessions_chat_sessions [of st keep removes now] show ?thesis
    by (intro exI [of _ ?f]) simp
qed

lemma merge_groups_identities:
  "\<exists>f. (\<forall>s. same_identity (f s) s)
       \<and> chat_sessions (fst (merge_groups now gs (st, acc))) =
           map f (filter (\<lambda>s. session_id s \<notin> set (concat (map remove_sessions gs)))
                    (chat_sessions st))"
proof (induction gs arbitrary: st acc)
  case Nil
  show ?case by (intro exI [of _ "\<lambda>s. s"]) (simp add: same_identity_def)
next
  case (Cons g rest)
  let ?st1 = "fst (merge_chat_sessions st (keep_session g) (remove_sessions g) now)"
  from merge_chat_sessions_identities [of st "keep_session g" "remove_sessions g" now]
  obtain f1 where f1: "\<forall>s. same_identity (f1 s) s"
    and s1: "chat_sessions ?st1 =
      map f1 (filter (\<lambda>s. session_id s \<notin> set (remove_sessions g)) (chat_sessions st))"
    by blast
  obtain acc1 where step: "merge_groups now (g # rest) (st, acc) = merge_groups now rest (?st1, acc1)"
    using merge_groups_step by blast
  from Cons.IH [of ?st1 acc1] obtain f2 where f2: "\<forall>s. same_identity (f2 s) s"
    and s2: "chat_sessions (fst (merge_groups now rest (?st1, acc1))) =
      map f2 (filter (\<lambda>s. session_id s \<notin> set (concat (map remove_sessions rest)))
                (chat_sessions ?st1))"
    by blast
  have id1: "session_id (f1 s) = session_id s" for s
    using f1 by (simp add: same_identity_def)
  have "chat_sessions (fst (merge_groups now (g # rest) (st, acc))) =
      map (f2 \<circ> f1) (filter (\<lambda>s. session_id s \<notin> set (concat (map remove_sessions (g # rest))))
                (chat_sessions st))"
    unfolding step s2 s1 by (simp add: filter_map comp_def id1 conj_commute)
  moreover have "\<forall>s. same_identity ((f2 \<circ> f1) s) s"
    using f1 f2 by (simp add: same_identity_def)
  ultimately show ?case by blast
qed

lemma same_identity_group_members:
  assumes "\<forall>s. same_identity (f s) s" and "chat_sessions st' = map f (filter P (chat_sessions st))"
  shows "group_members st' fp = map f (filter P (group_members st fp))"
proof -
  have "(chat_platform (f s) \<noteq> None \<and> participant_name (f s) \<noteq> None \<and> fingerprint_of (f s) = fp)
      = (chat_platform s \<noteq> None \<and> participant_name s \<noteq> None \<and> fingerprint_of s = fp)" for s
    using assms(1) by (simp add: same_identity_def fingerprint_of_def)
  then have "filter (\<lambda>s. (chat_platform s \<noteq> None \<and> participant_name s \<noteq> None) \<and> fingerprint_of s = fp) (map f xs)
      = map f (filter (\<lambda>s. (chat_platform s \<noteq> None \<and> participant_name s \<noteq> None) \<and> fingerprint_of s = fp) xs)" for xs
    by (induction xs) auto
  then show ?thesis
    unfolding group_members_def groupable_sessions_def assms(2)
    by (simp add: conj_commute conj_left_commute)
qed

section \<open>Reconciliation on a store without duplicates\<close>

lemma cleanup_without_duplicates:
  assumes "find_duplicate_chat_sessions st = []"
  shows "cleanup_duplicate_chat_sessions st now =
           (st, \<lparr> duplicate_groups_found = 0, total_sessions_removed = 0,
                  total_messages_merged = 0, total_duplicate_messages_skipped = 0,
                  groups_processed = None, success = True \<rparr>)"
  using assms by (simp add: cleanup_duplicate_chat_sessions_def)

lemma survivors_of_group:
  assumes "members \<noteq> []"
  shows "length (filter (\<lambda>s. session_id s \<notin> set (tl (map session_id (by_size_then_recency members))))
                   members) \<le> 1"
proof -
  let ?sorted = "by_size_then_recency members"
  let ?P = "\<lambda>s. session_id s \<notin> set (tl (map session_id ?sorted))"
  obtain m0 ms where sorted: "?sorted = m0 # ms"
    using assms by (metis length_by_size_then_recency length_0_conv neq_Nil_conv)
  have "filter ?P ms = []"
    unfolding sorted by (auto simp add: filter_empty_conv)
  then have "length (filter ?P ?sorted) \<le> 1"
    unfolding sorted by simp
  moreover have "filter ?P ?sorted = sort_key (\<lambda>s. (- total_messages s, - last_activity s)) (filter ?P members)"
    unfolding by_size_then_recency_def by (rule filter_sort)
  ultimately show ?thesis by simp
qed

text \<open>After a pass over a store with comma-free session ids no fingerprint is shared by two
  sessions, so the next pass finds nothing, changes nothing and reports zeros.\<close>

lemma cleanup_leaves_no_duplicates:
  assumes "comma_free_ids st"
  shows "find_duplicate_chat_sessions (fst (cleanup_duplicate_chat_sessions st now)) = []"
proof (cases "find_duplicate_chat_sessions st = []")
  case True
  then show ?thesis by (simp add: cleanup_without_duplicates)
next
  case False
  let ?gs = "find_duplicate_chat_sessions st"
  let ?st' = "fst (cleanup_duplicate_chat_sessions st now)"
  obtain acc where st': "?st' = fst (merge_groups now ?gs (st, acc))"
    using False by (simp add: cleanup_duplicate_chat_sessions_def Let_def)
  from merge_groups_identities [of now ?gs st acc] obtain f where
    f: "\<forall>s. same_identity (f s) s"
    and sessions: "chat_sessions ?st' =
      map f (filter (\<lambda>s. session_id s \<notin> set (concat (map remove_sessions ?gs))) (chat_sessions st))"
    unfolding st' by blast
  have "length (group_members ?st' fp) \<le> 1" for fp
  proof (cases "length (group_members st fp) \<le> 1")
    case True
    have "length (group_members ?st' fp) \<le> length (group_members st fp)"
      unfolding same_identity_group_members [OF f sessions] by simp
    with True show ?thesis by simp
  next
    case more: False
    then have ne: "group_members st fp \<noteq> []" by auto
    from more have "fp \<in> set (map fingerprint_of (groupable_sessions st))"
      by (cases "group_members st fp") (auto simp add: group_members_def filter_eq_Cons_iff)
    with more have g: "group_row st fp \<in> set ?gs"
      unfolding find_duplicate_chat_sessions_set by auto
    from group_row_ids(2) [OF assms ne]
    have removes: "remove_sessions (group_row st fp) =
        tl (map session_id (by_size_then_recency (group_members st fp)))"
      by (metis list.sel(3))
    have "set (remove_sessions (group_row st fp)) \<subseteq> set (concat (map remove_sessions ?gs))"
      using g by auto
    then have "filter (\<lambda>s. session_id s \<notin> set (concat (map remove_sessions ?gs))) (group_members st fp)
        = filter (\<lambda>s. session_id s \<notin> set (concat (map remove_sessions ?gs)))
            (filter (\<lambda>s. session_id s \<notin> set (remove_sessions (group_row st fp))) (group_members st fp))"
      by (auto intro!: filter_cong)
    then have "length (filter (\<lambda>s. session_id s \<notin> set (concat (map remove_sessions ?gs))) (group_members st fp))
        \<le> length (filter (\<lambda>s. session_id s \<notin> set (remove_sessions (group_row st fp))) (group_members st fp))"
      by (metis length_filter_le)
    also have "\<dots> \<le> 1"
      unfolding removes by (rule survivors_of_group [OF ne])
    finally show ?thesis
      unfolding same_identity_group_members [OF f sessions] by simp
  qed
  then show ?thesis by (simp add: find_duplicate_chat_sessions_Nil)
qed

lemma second_pass_changes_nothing:
  assumes "comma_free_ids st"
  shows "cleanup_duplicate_chat_sessions (fst (cleanup_duplicate_chat_sessions st now)) later =
           (fst (cleanup_duplicate_chat_sessions st now),
            \<lparr> duplicate_groups_found = 0, total_sessions_removed = 0,
              total_messages_merged = 0, total_duplicate_messages_skipped = 0,
              groups_processed = None, success = True \<rparr>)"
  by (rule cleanup_without_duplicates [OF cleanup_leaves_no_duplicates [OF assms]])

section \<open>A merge whose writes all pass\<close>

lemma new_keys_append:
  "new_keys seen (xs @ ys) = new_keys seen xs @ new_keys (seen \<union> set xs) ys"
proof (induction xs arbitrary: seen)
  case Nil
  show ?case by simp
next
  case (Cons x xs)
  show ?case
  proof (cases "x \<in> seen")
    case True
    then have "seen \<union> set (x # xs) = seen \<union> set xs" by auto
    with True Cons.IH [of seen] show ?thesis by simp
  next
    case False
    have "insert x seen \<union> set xs = seen \<union> set (x # xs)" by auto
    with False Cons.IH [of "insert x seen"] show ?thesis by simp
  qed
qed

lemma fresh_after_writes:
  assumes fresh: "\<forall>j > mo. derived_message_id sid j \<notin> set (map message_id (chat_messages st))"
    and orders: "\<forall>i < length new. message_order (new ! i) = mo + 1 + int i"
    and ids: "\<forall>row \<in> set new. message_id row = derived_message_id sid (message_order row)"
    and sub: "set (map message_id (chat_messages st'))
                \<subseteq> set (map message_id (chat_messages st)) \<union> set (map message_id new)"
  shows "\<forall>j > mo + int (length new).
           derived_message_id sid j \<notin> set (map message_id (chat_messages st'))"
proof (intro allI impI)
  fix j :: int
  assume j: "mo + int (length new) < j"
  then have old: "derived_message_id sid j \<notin> set (map message_id (chat_messages st))"
    using fresh by simp
  have "derived_message_id sid j \<noteq> message_id row" if "row \<in> set new" for row
  proof -
    from that obtain i where i: "i < length new" "new ! i = row"
      by (auto simp add: in_set_conv_nth)
    with orders have "message_order row = mo + 1 + int i" by blast
    with i j have "message_order row < j" by simp
    moreover from ids that have "message_id row = derived_message_id sid (message_order row)"
      by blast
    ultimately show ?thesis using derived_message_id_inj [of sid j sid "message_order row"]
      by auto
  qed
  with old have "derived_message_id sid j
      \<notin> set (map message_id (chat_messages st)) \<union> set (map message_id new)"
    by auto
  with sub show "derived_message_id sid j \<notin> set (map message_id (chat_messages st'))"
    by blast
qed

lemma merge_messages_success:
  assumes "\<forall>j > mo. derived_message_id keep j \<notin> set (map message_id (chat_messages st))"
  shows "\<exists>new stats'. merge_messages keep msgs (st, mo, stats) =
             (st\<lparr>chat_messages := chat_messages st @ new\<rparr>, mo + int (length new), stats')
           \<and> map dedup_key new = new_keys (set (dedup_keys st keep)) (map dedup_key msgs)
           \<and> (\<forall>i < length new. message_order (new ! i) = mo + 1 + int i)
           \<and> (\<forall>row \<in> set new. m_session_id row = keep
                 \<and> message_id row = derived_message_id keep (message_order row)
                 \<and> (\<exists>msg \<in> set msgs. same_content msg row))
           \<and> messages_merged stats' = messages_merged stats + length new
           \<and> duplicate_messages_skipped stats' + length new
               = duplicate_messages_skipped stats + length msgs
           \<and> sessions_removed stats' = sessions_removed stats"
  using assms
proof (induction msgs arbitrary: st mo stats)
  case Nil
  show ?case by (intro exI [of _ "[]"] exI [of _ stats]) simp
next
  case (Cons msg rest)
  show ?case
  proof (cases rule: merge_messages_cases [where msg=msg and st=st and keep=keep and mo=mo])
    case duplicate
    let ?stats1 = "stats\<lparr>duplicate_messages_skipped := duplicate_messages_skipped stats + 1\<rparr>"
    from Cons.IH [OF Cons.prems, of ?stats1] obtain new stats' where
      loop: "merge_messages keep rest (st, mo, ?stats1) =
             (st\<lparr>chat_messages := chat_messages st @ new\<rparr>, mo + int (length new), stats')"
      and keys: "map dedup_key new = new_keys (set (dedup_keys st keep)) (map dedup_key rest)"
      and orders: "\<forall>i < length new. message_order (new ! i) = mo + 1 + int i"
      and rows: "\<forall>row \<in> set new. m_session_id row = keep
                 \<and> message_id row = derived_message_id keep (message_order row)
                 \<and> (\<exists>msg \<in> set rest. same_content msg row)"
      and counts: "messages_merged stats' = messages_merged ?stats1 + length new"
        "duplicate_messages_skipped stats' + length new
               = duplicate_messages_skipped ?stats1 + length rest"
        "sessions_removed stats' = sessions_removed ?stats1"
      by blast
    have "dedup_key msg \<in> set (dedup_keys st keep)"
      using duplicate by (simp add: message_exists_iff dedup_key_def)
    with keys have keys': "map dedup_key new =
        new_keys (set (dedup_keys st keep)) (map dedup_key (msg # rest))"
      by simp
    from rows have rows': "\<forall>row \<in> set new. m_session_id row = keep
                 \<and> message_id row = derived_message_id keep (message_order row)
                 \<and> (\<exists>m \<in> set (msg # rest). same_content m row)"
      by fastforce
    from counts have counts': "messages_merged stats' = messages_merged stats + length new"
      "duplicate_messages_skipped stats' + length new
               = duplicate_messages_skipped stats + length (msg # rest)"
      "sessions_removed stats' = sessions_removed stats"
      by simp_all
    show ?thesis
      unfolding merge_messages_duplicate [OF duplicate]
      using loop keys' orders rows' counts' by (intro exI [of _ new] exI [of _ stats']) blast
  next
    case written
    let ?row = "\<lparr> m_session_id = keep, message_id = derived_message_id keep (mo + 1),
                      sender = sender msg, sender_type = sender_type msg,
                      message_text = message_text msg, timestamp = timestamp msg,
                      message_order = mo + 1, scraped_at = scraped_at msg \<rparr>"
    let ?st1 = "st\<lparr>chat_messages := chat_messages st @ [?row]\<rparr>"
    let ?stats1 = "stats\<lparr>messages_merged := messages_merged stats + 1\<rparr>"
    have fresh1: "\<forall>j > mo + 1. derived_message_id keep j
           \<notin> set (map message_id (chat_messages ?st1))"
      by (rule fresh_after_write [OF Cons.prems]) simp
    from Cons.IH [OF fresh1, of ?stats1] obtain new stats' where
      loop: "merge_messages keep rest (?st1, mo + 1, ?stats1) =
             (?st1\<lparr>chat_messages := chat_messages ?st1 @ new\<rparr>, mo + 1 + int (length new), stats')"
      and keys: "map dedup_key new = new_keys (set (dedup_keys ?st1 keep)) (map dedup_key rest)"
      and orders: "\<forall>i < length new. message_order (new ! i) = mo + 1 + 1 + int i"
      and rows: "\<forall>row \<in> set new. m_session_id row = keep
                 \<and> message_id row = derived_message_id keep (message_order row)
                 \<and> (\<exists>msg \<in> set rest. same_content msg row)"
      and counts: "messages_merged stats' = messages_merged ?stats1 + length new"
        "duplicate_messages_skipped stats' + length new
               = duplicate_messages_skipped ?stats1 + length rest"
        "sessions_removed stats' = sessions_removed ?stats1"
      by blast
    have notin: "dedup_key msg \<notin> set (dedup_keys st keep)"
      using written(1) by (simp add: message_exists_iff dedup_key_def)
    have "set (dedup_keys ?st1 keep) = insert (dedup_key msg) (set (dedup_keys st keep))"
      using dedup_keys_after_write [of ?row keep st] by (simp add: dedup_key_def)
    with keys notin
    have keys': "map dedup_key (?row # new) =
        new_keys (set (dedup_keys st keep)) (map dedup_key (msg # rest))"
      by (simp add: dedup_key_def)
    have orders': "\<forall>i < length (?row # new). message_order ((?row # new) ! i) = mo + 1 + int i"
    proof (intro allI impI)
      fix i assume "i < length (?row # new)"
      then show "message_order ((?row # new) ! i) = mo + 1 + int i"
        using orders by (cases i) simp_all
    qed
    have "same_content msg ?row" by (simp add: same_content_def)
    with rows have rows': "\<forall>row \<in> set (?row # new). m_session_id row = keep
                 \<and> message_id row = derived_message_id keep (message_order row)
                 \<and> (\<exists>m \<in> set (msg # rest). same_content m row)"
      by fastforce
    from counts have counts': "messages_merged stats' = messages_merged stats + length (?row # new)"
      "duplicate_messages_skipped stats' + length (?row # new)
               = duplicate_messages_skipped stats + length (msg # rest)"
      "sessions_removed stats' = sessions_removed stats"
      by simp_all
    have res: "merge_messages keep (msg # rest) (st, mo, stats) =
        (st\<lparr>chat_messages := chat_messages st @ ?row # new\<rparr>,
         mo + int (length (?row # new)), stats')"
      unfolding merge_messages_written [OF written] loop by simp
    show ?thesis
      using res keys' orders' rows' counts'
      by (intro exI [of _ "?row # new"] exI [of _ stats']) blast
  next
    case not_written
    from Cons.prems have "derived_message_id keep (mo + 1)
        \<notin> set (map message_id (chat_messages st))"
      by simp
    with not_written(2) show ?thesis by simp
  qed
qed

lemma incoming_messages_Cons:
  "incoming_messages st (r # rest) =
     sort_key message_order (session_messages st r) @ incoming_messages st rest"
  by (simp add: incoming_messages_def)

lemma incoming_messages_cong:
  assumes "\<forall>r \<in> set removes. session_messages st' r = session_messages st r"
  shows "incoming_messages st' removes = incoming_messages st removes"
  using assms by (simp add: incoming_messages_def cong: map_cong)

lemma orders_append:
  assumes "\<forall>i < length xs. message_order (xs ! i) = mo + 1 + int i"
    and "\<forall>i < length ys. message_order (ys ! i) = mo + int (length xs) + 1 + int i"
  shows "\<forall>i < length (xs @ ys). message_order ((xs @ ys) ! i) = mo + 1 + int i"
proof (intro allI impI)
  fix i assume i: "i < length (xs @ ys)"
  show "message_order ((xs @ ys) ! i) = mo + 1 + int i"
  proof (cases "i < length xs")
    case True
    with assms(1) show ?thesis by (simp add: nth_append)
  next
    case False
    with i have "i - length xs < length ys" by simp
    with assms(2) have "message_order (ys ! (i - length xs)) = mo + int (length xs) + 1 + int (i - length xs)"
      by blast
    with False show ?thesis by (simp add: nth_append of_nat_diff)
  qed
qed

lemma merge_sessions_success:
  assumes "keep \<notin> set removes" and "distinct removes"
    and "\<forall>j > mo. derived_message_id keep j \<notin> set (map message_id (chat_messages st))"
  shows "\<exists>new stats'. merge_sessions keep removes (st, mo, stats) =
             (st\<lparr>chat_messages :=
                    filter (\<lambda>m. m_session_id m \<notin> set removes) (chat_messages st) @ new,
                  chat_sessions :=
                    filter (\<lambda>s. session_id s \<notin> set removes) (chat_sessions st)\<rparr>,
              mo + int (length new), stats')
           \<and> map dedup_key new
               = new_keys (set (dedup_keys st keep)) (map dedup_key (incoming_messages st removes))
           \<and> (\<forall>i < length new. message_order (new ! i) = mo + 1 + int i)
           \<and> (\<forall>row \<in> set new. m_session_id row = keep
                 \<and> message_id row = derived_message_id keep (message_order row)
                 \<and> (\<exists>msg \<in> set (incoming_messages st removes). same_content msg row))
           \<and> messages_merged stats' = messages_merged stats + length new
           \<and> duplicate_messages_skipped stats' + length new
               = duplicate_messages_skipped stats + length (incoming_messages st removes)
           \<and> sessions_removed stats' = sessions_removed stats + length removes"
  using assms
proof (induction removes arbitrary: st mo stats)
  case Nil
  show ?case
    by (intro exI [of _ "[]"] exI [of _ stats]) (simp add: incoming_messages_def)
next
  case (Cons r rest)
  from Cons.prems have keep_r: "keep \<noteq> r" and keep_rest: "keep \<notin> set rest"
    and r_rest: "r \<notin> set rest" and dist: "distinct rest"
    by auto
  let ?msgs = "sort_key message_order (session_messages st r)"
  from merge_messages_success [OF Cons.prems(3), of ?msgs stats] obtain new1 stats1 where
    mm: "merge_messages keep ?msgs (st, mo, stats) =
           (st\<lparr>chat_messages := chat_messages st @ new1\<rparr>, mo + int (length new1), stats1)"
    and keys1: "map dedup_key new1 = new_keys (set (dedup_keys st keep)) (map dedup_key ?msgs)"
    and orders1: "\<forall>i < length new1. message_order (new1 ! i) = mo + 1 + int i"
    and rows1: "\<forall>row \<in> set new1. m_session_id row = keep
                 \<and> message_id row = derived_message_id keep (message_order row)
                 \<and> (\<exists>msg \<in> set ?msgs. same_content msg row)"
    and counts1: "messages_merged stats1 = messages_merged stats + length new1"
        "duplicate_messages_skipped stats1 + length new1
               = duplicate_messages_skipped stats + length ?msgs"
        "sessions_removed stats1 = sessions_removed stats"
    by blast
  have own1: "\<forall>row \<in> set new1. m_session_id row = keep" using rows1 by blast
  let ?std = "delete_session (st\<lparr>chat_messages := chat_messages st @ new1\<rparr>) r"
  let ?stats1 = "stats1\<lparr>sessions_removed := sessions_removed stats1 + 1\<rparr>"
  have keep1: "filter (\<lambda>m. m_session_id m \<noteq> r) new1 = new1"
    using own1 keep_r by (simp add: filter_id_conv)
  have std_msgs: "chat_messages ?std = filter (\<lambda>m. m_session_id m \<noteq> r) (chat_messages st) @ new1"
    by (simp add: delete_session_def keep1)
  have std_sessions: "chat_sessions ?std = filter (\<lambda>s. session_id s \<noteq> r) (chat_sessions st)"
    by (simp add: delete_session_def)
  have sub: "set (map message_id (chat_messages ?std))
      \<subseteq> set (map message_id (chat_messages st)) \<union> set (map message_id new1)"
    unfolding std_msgs by auto
  have ids1: "\<forall>row \<in> set new1. message_id row = derived_message_id keep (message_order row)"
    using rows1 by blast
  have fresh_d: "\<forall>j > mo + int (length new1).
      derived_message_id keep j \<notin> set (map message_id (chat_messages ?std))"
    by (rule fresh_after_writes [OF Cons.prems(3) orders1 ids1 sub])
  from Cons.IH [OF keep_rest dist fresh_d, of ?stats1] obtain new2 stats' where
    ms: "merge_sessions keep rest (?std, mo + int (length new1), ?stats1) =
           (?std\<lparr>chat_messages :=
                    filter (\<lambda>m. m_session_id m \<notin> set rest) (chat_messages ?std) @ new2,
                  chat_sessions :=
                    filter (\<lambda>s. session_id s \<notin> set rest) (chat_sessions ?std)\<rparr>,
            mo + int (length new1) + int (length new2), stats')"
    and keys2: "map dedup_key new2
        = new_keys (set (dedup_keys ?std keep)) (map dedup_key (incoming_messages ?std rest))"
    and orders2: "\<forall>i < length new2. message_order (new2 ! i) = mo + int (length new1) + 1 + int i"
    and rows2: "\<forall>row \<in> set new2. m_session_id row = keep
                 \<and> message_id row = derived_message_id keep (message_order row)
                 \<and> (\<exists>msg \<in> set (incoming_messages ?std rest). same_content msg row)"
    and counts2: "messages_merged stats' = messages_merged ?stats1 + length new2"
        "duplicate_messages_skipped stats' + length new2
               = duplicate_messages_skipped ?stats1 + length (incoming_messages ?std rest)"
        "sessions_removed stats' = sessions_removed ?stats1 + length rest"
    by blast
  have sm_keep: "session_messages ?std keep = session_messages st keep @ new1"
    using own1 keep_r by (auto simp add: session_messages_def std_msgs filter_id_conv intro!: filter_cong)
  have sm_rest: "\<forall>r' \<in> set rest. session_messages ?std r' = session_messages st r'"
  proof
    fix r' assume r': "r' \<in> set rest"
    with r_rest keep_rest have ne: "r' \<noteq> r" "r' \<noteq> keep" by auto
    have "filter (\<lambda>m. m_session_id m = r') new1 = []"
      using own1 ne(2) by (auto simp add: filter_empty_conv)
    then show "session_messages ?std r' = session_messages st r'"
      using ne(1) by (auto simp add: session_messages_def std_msgs intro!: filter_cong)
  qed
  have inc: "incoming_messages ?std rest = incoming_messages st rest"
    by (rule incoming_messages_cong [OF sm_rest])
  have seen: "set (dedup_keys ?std keep) = set (dedup_keys st keep) \<union> set (map dedup_key ?msgs)"
    unfolding dedup_keys_def sm_keep using keys1
    by (simp add: set_new_keys dedup_keys_def Un_Diff_cancel)
  have keys: "map dedup_key (new1 @ new2)
      = new_keys (set (dedup_keys st keep)) (map dedup_key (incoming_messages st (r # rest)))"
    unfolding incoming_messages_Cons using keys1 keys2
    by (simp add: new_keys_append seen inc)
  have orders: "\<forall>i < length (new1 @ new2). message_order ((new1 @ new2) ! i) = mo + 1 + int i"
    by (rule orders_append [OF orders1 orders2])
  have rows: "\<forall>row \<in> set (new1 @ new2). m_session_id row = keep
                 \<and> message_id row = derived_message_id keep (message_order row)
                 \<and> (\<exists>msg \<in> set (incoming_messages st (r # rest)). same_content msg row)"
    unfolding incoming_messages_Cons using rows1 rows2 inc by fastforce
  have counts: "messages_merged stats' = messages_merged stats + length (new1 @ new2)"
    "duplicate_messages_skipped stats' + length (new1 @ new2)
       = duplicate_messages_skipped stats + length (incoming_messages st (r # rest))"
    "sessions_removed stats' = sessions_removed stats + length (r # rest)"
    unfolding incoming_messages_Cons using counts1 counts2 inc by simp_all
  have keep2: "filter (\<lambda>m. m_session_id m \<noteq> r \<and> m_session_id m \<notin> set rest) new1 = new1"
    using own1 keep_r keep_rest by (simp add: filter_id_conv)
  have res: "merge_sessions keep (r # rest) (st, mo, stats) =
      (st\<lparr>chat_messages :=
             filter (\<lambda>m. m_session_id m \<notin> set (r # rest)) (chat_messages st) @ new1 @ new2,
           chat_sessions :=
             filter (\<lambda>s. session_id s \<notin> set (r # rest)) (chat_sessions st)\<rparr>,
       mo + int (length (new1 @ new2)), stats')"
    unfolding merge_sessions_step [OF mm] ms
    by (simp add: std_msgs std_sessions keep2 delete_session_def conj_commute)
  show ?case
    using res keys orders rows counts
    by (intro exI [of _ "new1 @ new2"] exI [of _ stats']) blast
qed

section \<open>One group reconciled\<close>

lemma session_rows_filter_other:
  assumes "x \<notin> set removes"
  shows "filter (\<lambda>s. session_id s \<notin> set removes \<and> session_id s = x) rows
           = filter (\<lambda>s. session_id s = x) rows"
  using assms by (auto intro!: filter_cong)

lemma session_messages_filter_other:
  assumes "x \<notin> set removes"
  shows "filter (\<lambda>m. m_session_id m \<notin> set removes \<and> m_session_id m = x) rows
           = filter (\<lambda>m. m_session_id m = x) rows"
  using assms by (auto intro!: filter_cong)

lemma session_rows_refresh_rollup:
  "session_rows (refresh_rollup st sid now) x =
     (if x = sid
      then map (\<lambda>s. s\<lparr>last_activity := now, total_messages := message_count st sid\<rparr>)
             (session_rows st sid)
      else session_rows st x)"
proof -
  have "filter (\<lambda>s. session_id s = x)
      (map (\<lambda>s. if session_id s = sid
                then s\<lparr>last_activity := now, total_messages := n\<rparr> else s) rows) =
      (if x = sid
       then map (\<lambda>s. s\<lparr>last_activity := now, total_messages := n\<rparr>)
              (filter (\<lambda>s. session_id s = sid) rows)
       else filter (\<lambda>s. session_id s = x) rows)" for rows n
    by (induction rows) auto
  then show ?thesis
    unfolding session_rows_def refresh_rollup_sessions by blast
qed

text \<open>The merge of one group into a session whose next keys are unused.\<close>

lemma merge_chat_sessions_success:
  assumes "keep \<notin> set removes" and "distinct removes" and "keys_unused st keep"
  shows "absorbed st keep removes now (fst (merge_chat_sessions st keep removes now))"
    and "\<forall>x. x \<notin> set (keep # removes) \<longrightarrow>
           session_messages (fst (merge_chat_sessions st keep removes now)) x = session_messages st x
           \<and> session_rows (fst (merge_chat_sessions st keep removes now)) x = session_rows st x"
    and "\<forall>mid \<in> set (map message_id (chat_messages (fst (merge_chat_sessions st keep removes now)))).
           mid \<in> set (map message_id (chat_messages st)) \<or> (\<exists>j. mid = derived_message_id keep j)"
proof -
  let ?mo = "max_message_order st keep"
  let ?stats = "\<lparr> messages_merged = 0, duplicate_messages_skipped = 0, sessions_removed = 0,
                    total_messages_before = message_count st keep, total_messages_after = 0 \<rparr>"
  from assms(3) have fresh: "\<forall>j > ?mo. derived_message_id keep j
      \<notin> set (map message_id (chat_messages st))"
    by (simp add: keys_unused_def)
  from merge_sessions_success [OF assms(1,2) fresh, of ?stats] obtain new stats' where
    ms: "merge_sessions keep removes (st, ?mo, ?stats) =
           (st\<lparr>chat_messages :=
                    filter (\<lambda>m. m_session_id m \<notin> set removes) (chat_messages st) @ new,
                  chat_sessions :=
                    filter (\<lambda>s. session_id s \<notin> set removes) (chat_sessions st)\<rparr>,
            ?mo + int (length new), stats')"
    and keys: "map dedup_key new
        = new_keys (set (dedup_keys st keep)) (map dedup_key (incoming_messages st removes))"
    and orders: "\<forall>i < length new. message_order (new ! i) = ?mo + 1 + int i"
    and rows: "\<forall>row \<in> set new. m_session_id row = keep
                 \<and> message_id row = derived_message_id keep (message_order row)
                 \<and> (\<exists>msg \<in> set (incoming_messages st removes). same_content msg row)"
    by blast
  let ?st1 = "st\<lparr>chat_messages :=
                    filter (\<lambda>m. m_session_id m \<notin> set removes) (chat_messages st) @ new,
                  chat_sessions :=
                    filter (\<lambda>s. session_id s \<notin> set removes) (chat_sessions st)\<rparr>"
  let ?st' = "fst (merge_chat_sessions st keep removes now)"
  have st': "?st' = refresh_rollup ?st1 keep now"
    by (simp add: merge_chat_sessions_def Let_def ms)
  have own: "\<forall>row \<in> set new. m_session_id row = keep" using rows by blast
  have new_keep: "filter (\<lambda>m. m_session_id m = keep) new = new"
    using own by (simp add: filter_id_conv)
  have new_other: "filter (\<lambda>m. m_session_id m = x) new = []" if "x \<noteq> keep" for x
    using own that by (auto simp add: filter_empty_conv)
  have sm_keep: "session_messages ?st' keep = session_messages st keep @ new"
    unfolding st' using assms(1)
    by (simp add: session_messages_def session_messages_filter_other new_keep)
  have sm_other: "session_messages ?st' x = session_messages st x" if "x \<notin> set (keep # removes)" for x
    unfolding st' using that
    by (simp add: session_messages_def session_messages_filter_other new_other)
  have sm_removed: "session_messages ?st' r = []" if "r \<in> set removes" for r
  proof -
    from that assms(1) have "r \<noteq> keep" by auto
    then show ?thesis
      unfolding st' using that
      by (auto simp add: session_messages_def new_other filter_empty_conv)
  qed
  have sr1: "session_rows ?st1 x = session_rows st x" if "x \<notin> set removes" for x
    using that by (simp add: session_rows_def session_rows_filter_other)
  have sr_keep: "session_rows ?st' keep =
      map (\<lambda>s. s\<lparr>last_activity := now, total_messages := message_count ?st' keep\<rparr>)
        (session_rows st keep)"
    unfolding st' by (simp add: session_rows_refresh_rollup sr1 [OF assms(1)])
  have sr_other: "session_rows ?st' x = session_rows st x" if "x \<notin> set (keep # removes)" for x
    unfolding st' using that by (simp add: session_rows_refresh_rollup sr1)
  have sr_removed: "session_rows ?st' r = []" if "r \<in> set removes" for r
  proof -
    from that assms(1) have "r \<noteq> keep" by auto
    moreover have "session_rows ?st1 r = []"
      using that by (auto simp add: session_rows_def filter_empty_conv)
    ultimately show ?thesis
      unfolding st' by (simp add: session_rows_refresh_rollup)
  qed
  have ord: "list_all (\<lambda>i. message_order (new ! i) = ?mo + 1 + int i) [0..<length new]"
    using orders by (simp add: list_all_iff)
  have cont: "list_all (\<lambda>row. list_ex (\<lambda>msg. same_content msg row) (incoming_messages st removes)) new"
    using rows by (simp add: list_all_iff list_ex_iff)
  have gone: "list_all (\<lambda>r. session_messages ?st' r = [] \<and> session_rows ?st' r = []) removes"
    using sm_removed sr_removed by (simp add: list_all_iff)
  show "absorbed st keep removes now ?st'"
    unfolding absorbed_def using sm_keep keys ord cont sr_keep gone by blast
  show "\<forall>x. x \<notin> set (keep # removes) \<longrightarrow>
           session_messages ?st' x = session_messages st x \<and> session_rows ?st' x = session_rows st x"
    using sm_other sr_other by blast
  show "\<forall>mid \<in> set (map message_id (chat_messages ?st')).
           mid \<in> set (map message_id (chat_messages st)) \<or> (\<exists>j. mid = derived_message_id keep j)"
    unfolding st' using rows by auto
qed

section \<open>All groups reconciled\<close>

lemma max_message_order_cong:
  "session_messages st' x = session_messages st x \<Longrightarrow> max_message_order st' x = max_message_order st x"
  by (simp add: max_message_order_def)

lemma dedup_keys_cong:
  "session_messages st' x = session_messages st x \<Longrightarrow> dedup_keys st' x = dedup_keys st x"
  by (simp add: dedup_keys_def)

lemma message_count_cong:
  "session_messages st' x = session_messages st x \<Longrightarrow> message_count st' x = message_count st x"
  by (simp add: message_count_def)

text \<open>Whether a group was absorbed is read off the rows of its own sessions alone.\<close>

lemma absorbed_cong:
  assumes abs: "absorbed st keep removes now st'"
    and before: "\<forall>x \<in> set (keep # removes).
        session_messages st0 x = session_messages st x \<and> session_rows st0 x = session_rows st x"
    and after: "\<forall>x \<in> set (keep # removes).
        session_messages st2 x = session_messages st' x \<and> session_rows st2 x = session_rows st' x"
  shows "absorbed st0 keep removes now st2"
proof -
  from before have b_keep: "session_messages st0 keep = session_messages st keep"
    "session_rows st0 keep = session_rows st keep"
    and b_rem: "\<forall>r \<in> set removes. session_messages st0 r = session_messages st r"
    by simp_all
  from after have a_keep: "session_messages st2 keep = session_messages st' keep"
    "session_rows st2 keep = session_rows st' keep"
    and a_rem: "\<forall>r \<in> set removes. session_messages st2 r = session_messages st' r
        \<and> session_rows st2 r = session_rows st' r"
    by simp_all
  have inc: "incoming_messages st0 removes = incoming_messages st removes"
    by (rule incoming_messages_cong [OF b_rem])
  have gone: "list_all (\<lambda>r. session_messages st2 r = [] \<and> session_rows st2 r = []) removes
      = list_all (\<lambda>r. session_messages st' r = [] \<and> session_rows st' r = []) removes"
    using a_rem by (simp add: list_all_iff)
  show ?thesis
    using abs unfolding absorbed_def inc gone a_keep b_keep
      max_message_order_cong [OF b_keep(1)] dedup_keys_cong [OF b_keep(1)]
      message_count_cong [OF a_keep(1)] .
qed

lemma keys_unused_frame:
  assumes unused: "keys_unused st k"
    and same: "session_messages st1 k = session_messages st k"
    and ids: "\<forall>mid \<in> set (map message_id (chat_messages st1)).
        mid \<in> set (map message_id (chat_messages st)) \<or> (\<exists>j. mid = derived_message_id keep j)"
    and ne: "k \<noteq> keep"
  shows "keys_unused st1 k"
  unfolding keys_unused_def max_message_order_cong [OF same]
proof (intro allI impI)
  fix j :: int
  assume "max_message_order st k < j"
  with unused have old: "derived_message_id k j \<notin> set (map message_id (chat_messages st))"
    by (simp add: keys_unused_def)
  have "derived_message_id k j \<noteq> derived_message_id keep i" for i
    using derived_message_id_inj [of k j keep i] ne by blast
  with old ids show "derived_message_id k j \<notin> set (map message_id (chat_messages st1))"
    by blast
qed

lemma merge_groups_success:
  assumes "distinct (concat (map (\<lambda>g. keep_session g # remove_sessions g) gs))"
    and "\<forall>g \<in> set gs. keys_unused st (keep_session g)"
  shows "(\<forall>g \<in> set gs. absorbed st (keep_session g) (remove_sessions g) now
            (fst (merge_groups now gs (st, acc))))
         \<and> (\<forall>x. x \<notin> set (concat (map (\<lambda>g. keep_session g # remove_sessions g) gs)) \<longrightarrow>
               session_messages (fst (merge_groups now gs (st, acc))) x = session_messages st x
               \<and> session_rows (fst (merge_groups now gs (st, acc))) x = session_rows st x)"
  using assms
proof (induction gs arbitrary: st acc)
  case Nil
  show ?case by simp
next
  case (Cons g rest)
  let ?keep = "keep_session g" and ?removes = "remove_sessions g"
  let ?foot = "\<lambda>g. keep_session g # remove_sessions g"
  let ?st1 = "fst (merge_chat_sessions st ?keep ?removes now)"
  from Cons.prems(1) have d_g: "distinct (?keep # ?removes)"
    and d_rest: "distinct (concat (map ?foot rest))"
    and disj: "set (?keep # ?removes) \<inter> set (concat (map ?foot rest)) = {}"
    by simp_all
  from d_g have k_notin: "?keep \<notin> set ?removes" and d_rem: "distinct ?removes" by simp_all
  from Cons.prems(2) have unused_g: "keys_unused st ?keep" by simp
  note m = merge_chat_sessions_success [OF k_notin d_rem unused_g, of now]
  obtain acc1 where step: "merge_groups now (g # rest) (st, acc) = merge_groups now rest (?st1, acc1)"
    using merge_groups_step by blast
  let ?st' = "fst (merge_groups now rest (?st1, acc1))"
  have unused1: "\<forall>h \<in> set rest. keys_unused ?st1 (keep_session h)"
  proof
    fix h assume h: "h \<in> set rest"
    then have in_rest: "keep_session h \<in> set (concat (map ?foot rest))" by auto
    with disj have out: "keep_session h \<notin> set (?keep # ?removes)" by blast
    then have ne: "keep_session h \<noteq> ?keep" by auto
    from m(2) out have same: "session_messages ?st1 (keep_session h) = session_messages st (keep_session h)"
      by blast
    from Cons.prems(2) h have "keys_unused st (keep_session h)" by simp
    then show "keys_unused ?st1 (keep_session h)"
      using same m(3) ne by (rule keys_unused_frame)
  qed
  from Cons.IH [OF d_rest unused1, of acc1]
  have ih_abs: "\<forall>h \<in> set rest. absorbed ?st1 (keep_session h) (remove_sessions h) now ?st'"
    and ih_frame: "\<forall>x. x \<notin> set (concat (map ?foot rest)) \<longrightarrow>
        session_messages ?st' x = session_messages ?st1 x \<and> session_rows ?st' x = session_rows ?st1 x"
    by blast+
  have abs_g: "absorbed st ?keep ?removes now ?st'"
  proof (rule absorbed_cong [OF m(1)])
    show "\<forall>x \<in> set (?keep # ?removes).
        session_messages st x = session_messages st x \<and> session_rows st x = session_rows st x"
      by simp
    show "\<forall>x \<in> set (?keep # ?removes).
        session_messages ?st' x = session_messages ?st1 x \<and> session_rows ?st' x = session_rows ?st1 x"
      using ih_frame disj by blast
  qed
  have abs_rest: "absorbed st (keep_session h) (remove_sessions h) now ?st'" if h: "h \<in> set rest" for h
  proof (rule absorbed_cong)
    show "absorbed ?st1 (keep_session h) (remove_sessions h) now ?st'"
      using ih_abs h by blast
    have "set (?foot h) \<subseteq> set (concat (map ?foot rest))" using h by auto
    with disj have "\<forall>x \<in> set (?foot h). x \<notin> set (?keep # ?removes)" by blast
    with m(2) show "\<forall>x \<in> set (keep_session h # remove_sessions h).
        session_messages st x = session_messages ?st1 x \<and> session_rows st x = session_rows ?st1 x"
      by simp
    show "\<forall>x \<in> set (keep_session h # remove_sessions h).
        session_messages ?st' x = session_messages ?st' x \<and> session_rows ?st' x = session_rows ?st' x"
      by simp
  qed
  have frame: "session_messages ?st' x = session_messages st x \<and> session_rows ?st' x = session_rows st x"
    if "x \<notin> set (concat (map ?foot (g # rest)))" for x
  proof -
    from that have "x \<notin> set (?keep # ?removes)" "x \<notin> set (concat (map ?foot rest))" by auto
    with m(2) ih_frame show ?thesis by simp
  qed
  show ?case
    unfolding step using abs_g abs_rest frame by auto
qed

section \<open>The groups of a store with unique, comma-free session ids\<close>

lemma group_members_same_id:
  assumes "unique_session_ids st"
    and "s \<in> set (group_members st fp)" and "s' \<in> set (group_members st fp')"
    and "session_id s = session_id s'"
  shows "s = s' \<and> fp = fp'"
proof -
  from assms(1) have "inj_on session_id (set (chat_sessions st))"
    by (simp add: unique_session_ids_def distinct_map)
  moreover from assms(2,3) have "s \<in> set (chat_sessions st)" "s' \<in> set (chat_sessions st)"
    using group_members_subset by blast+
  ultimately have "s = s'" using assms(4) by (meson inj_onD)
  with group_members_fingerprint [OF assms(2)] group_members_fingerprint [OF assms(3)]
  show ?thesis by simp
qed

lemma group_members_distinct_ids:
  assumes "unique_session_ids st"
  shows "distinct (map session_id (group_members st fp))"
  using assms
  by (simp add: unique_session_ids_def group_members_def groupable_sessions_def distinct_map_filter)

text \<open>What a duplicate group of such a store is: the ids of the sessions that share its
  fingerprint, the largest first.\<close>

lemma duplicate_group_footprint:
  assumes "comma_free_ids st" and "g \<in> set (find_duplicate_chat_sessions st)"
  shows "keep_session g # remove_sessions g
           = map session_id (by_size_then_recency (group_members st (dg_fingerprint g)))"
    and "length (group_members st (dg_fingerprint g)) > 1"
    and "g = group_row st (dg_fingerprint g)"
proof -
  from assms(2) obtain fp where g: "g = group_row st fp" and more: "length (group_members st fp) > 1"
    by (rule find_duplicate_chat_sessions_member)
  from more have ne: "group_members st fp \<noteq> []" by auto
  from group_row_ids(3) [OF assms(1) ne] g have fp: "dg_fingerprint g = fp" by simp
  show "keep_session g # remove_sessions g
      = map session_id (by_size_then_recency (group_members st (dg_fingerprint g)))"
    using group_row_ids(2) [OF assms(1) ne] g fp by simp
  show "length (group_members st (dg_fingerprint g)) > 1" using more fp by simp
  show "g = group_row st (dg_fingerprint g)" using g fp by simp
qed

lemma duplicate_group_footprint_set:
  assumes "comma_free_ids st" and "g \<in> set (find_duplicate_chat_sessions st)"
  shows "set (keep_session g # remove_sessions g)
           = session_id ` set (group_members st (dg_fingerprint g))"
  unfolding duplicate_group_footprint(1) [OF assms] by simp

lemma duplicate_groups_share_no_id:
  assumes "unique_session_ids st" and "comma_free_ids st"
    and "g \<in> set (find_duplicate_chat_sessions st)" and "h \<in> set (find_duplicate_chat_sessions st)"
    and "x \<in> set (keep_session g # remove_sessions g)"
    and "x \<in> set (keep_session h # remove_sessions h)"
  shows "g = h"
proof -
  from assms(5) obtain s where s: "s \<in> set (group_members st (dg_fingerprint g))" "session_id s = x"
    unfolding duplicate_group_footprint_set [OF assms(2,3)] by blast
  from assms(6) obtain s' where s': "s' \<in> set (group_members st (dg_fingerprint h))" "session_id s' = x"
    unfolding duplicate_group_footprint_set [OF assms(2,4)] by blast
  from group_members_same_id [OF assms(1) s(1) s'(1)] s(2) s'(2)
  have "dg_fingerprint g = dg_fingerprint h" by simp
  with duplicate_group_footprint(3) [OF assms(2,3)] duplicate_group_footprint(3) [OF assms(2,4)]
  show ?thesis by simp
qed

lemma distinct_find_duplicate_chat_sessions:
  "distinct (find_duplicate_chat_sessions st)"
proof -
  let ?fps = "filter (\<lambda>fp. length (group_members st fp) > 1)
             (remdups (map fingerprint_of (groupable_sessions st)))"
  have "dg_fingerprint (group_row st fp) = fp" for fp
    by (simp add: group_row_def Let_def)
  then have "inj_on (group_row st) (set ?fps)"
    by (metis inj_onI)
  moreover have "distinct ?fps" by simp
  ultimately have "distinct (map (group_row st) ?fps)"
    by (simp add: distinct_map)
  then show ?thesis
    by (simp add: find_duplicate_chat_sessions_def)
qed

lemma duplicate_groups_distinct_ids:
  assumes "unique_session_ids st" and "comma_free_ids st"
  shows "distinct (concat (map (\<lambda>g. keep_session g # remove_sessions g)
            (find_duplicate_chat_sessions st)))"
proof (rule distinct_concat)
  let ?gs = "find_duplicate_chat_sessions st"
  let ?foot = "\<lambda>g. keep_session g # remove_sessions g"
  have "inj_on ?foot (set ?gs)"
  proof (rule inj_onI)
    fix g h assume g: "g \<in> set ?gs" and h: "h \<in> set ?gs" and eq: "?foot g = ?foot h"
    have "keep_session g \<in> set (?foot g)" by simp
    moreover from eq have "keep_session g \<in> set (?foot h)" by (metis list.set_intros(1))
    ultimately show "g = h"
      using duplicate_groups_share_no_id [OF assms g h] by blast
  qed
  with distinct_find_duplicate_chat_sessions [of st] show "distinct (map ?foot ?gs)"
    by (simp add: distinct_map)
next
  fix ys assume "ys \<in> set (map (\<lambda>g. keep_session g # remove_sessions g)
      (find_duplicate_chat_sessions st))"
  then obtain g where g: "g \<in> set (find_duplicate_chat_sessions st)"
    and ys: "ys = keep_session g # remove_sessions g"
    by auto
  show "distinct ys"
    unfolding ys duplicate_group_footprint(1) [OF assms(2) g]
    by (simp add: distinct_map_by_size_then_recency group_members_distinct_ids [OF assms(1)])
next
  fix ys zs
  assume "ys \<in> set (map (\<lambda>g. keep_session g # remove_sessions g)
      (find_duplicate_chat_sessions st))"
    and "zs \<in> set (map (\<lambda>g. keep_session g # remove_sessions g)
      (find_duplicate_chat_sessions st))"
    and ne: "ys \<noteq> zs"
  then obtain g h where g: "g \<in> set (find_duplicate_chat_sessions st)"
    and ys: "ys = keep_session g # remove_sessions g"
    and h: "h \<in> set (find_duplicate_chat_sessions st)"
    and zs: "zs = keep_session h # remove_sessions h"
    by auto
  show "set ys \<inter> set zs = {}"
  proof (rule ccontr)
    assume "set ys \<inter> set zs \<noteq> {}"
    then obtain x where "x \<in> set ys" "x \<in> set zs" by blast
    with duplicate_groups_share_no_id [OF assms g h] ys zs have "g = h" by blast
    with ys zs ne show False by simp
  qed
qed

section \<open>A group of the query reconciled\<close>

lemma filter_same_key_singleton:
  assumes "distinct (map f xs)" and "x \<in> set xs"
  shows "filter (\<lambda>y. f y = f x) xs = [x]"
  using assms
proof (induction xs)
  case Nil
  then show ?case by simp
next
  case (Cons a xs)
  show ?case
  proof (cases "a = x")
    case True
    from True Cons.prems(1) have "f x \<notin> f ` set xs" by simp
    then have "\<forall>y \<in> set xs. f y \<noteq> f x" by (metis imageI)
    then have "filter (\<lambda>y. f y = f x) xs = []" by (simp add: filter_empty_conv)
    with True show ?thesis by simp
  next
    case False
    with Cons.prems have "x \<in> set xs" "distinct (map f xs)" "f a \<noteq> f x" by auto
    with Cons.IH show ?thesis by simp
  qed
qed

lemma set_incoming_messages:
  "set (incoming_messages st removes) = (\<Union>r \<in> set removes. set (session_messages st r))"
  by (simp add: incoming_messages_def)

lemma cleanup_with_duplicates:
  assumes "find_duplicate_chat_sessions st \<noteq> []"
  shows "\<exists>acc. fst (cleanup_duplicate_chat_sessions st now)
           = fst (merge_groups now (find_duplicate_chat_sessions st) (st, acc))"
  using assms by (auto simp add: cleanup_duplicate_chat_sessions_def Let_def)

text \<open>
  Take a store whose session ids are unique and hold no comma, in which none of the
  message keys that the kept session of a duplicate group would be given next is stored
  already, and take one of the groups the query returns. One reconciliation pass leaves
  exactly one session with the group's fingerprint: the member that no other member beats
  on message count, nor, at equal count, on last activity, with its count recomputed and
  its last activity set to the time of the pass. Its message rows are the rows it had
  followed by new rows whose dedup keys are pairwise distinct and new to it; its set of
  dedup keys is the union of the members' sets; every new row carries the sender, role,
  text, conversational timestamp and ingestion timestamp of a row of a removed member. The
  other members have no message rows and no session row left.
\<close>

lemma reconcile_duplicate_group:
  assumes uniq: "unique_session_ids st" and commas: "comma_free_ids st"
    and unused: "\<forall>h \<in> set (find_duplicate_chat_sessions st). keys_unused st (keep_session h)"
    and g: "g \<in> set (find_duplicate_chat_sessions st)"
  shows "\<exists>k new.
      length (group_members st (dg_fingerprint g)) > 1
      \<and> k \<in> set (group_members st (dg_fingerprint g)) \<and> session_id k = keep_session g
      \<and> (\<forall>m \<in> set (group_members st (dg_fingerprint g)).
            total_messages m < total_messages k
            \<or> (total_messages m = total_messages k \<and> last_activity m \<le> last_activity k))
      \<and> set (remove_sessions g)
          = session_id ` set (group_members st (dg_fingerprint g)) - {keep_session g}
      \<and> group_members (fst (cleanup_duplicate_chat_sessions st now)) (dg_fingerprint g)
          = [k\<lparr>last_activity := now,
               total_messages :=
                 message_count (fst (cleanup_duplicate_chat_sessions st now)) (keep_session g)\<rparr>]
      \<and> session_messages (fst (cleanup_duplicate_chat_sessions st now)) (keep_session g)
          = session_messages st (keep_session g) @ new
      \<and> distinct (map dedup_key new)
      \<and> set (map dedup_key new) \<inter> set (dedup_keys st (keep_session g)) = {}
      \<and> set (dedup_keys (fst (cleanup_duplicate_chat_sessions st now)) (keep_session g))
          = (\<Union>m \<in> set (group_members st (dg_fingerprint g)). set (dedup_keys st (session_id m)))
      \<and> (\<forall>row \<in> set new. \<exists>r \<in> set (remove_sessions g).
            \<exists>msg \<in> set (session_messages st r). same_content msg row)
      \<and> (\<forall>r \<in> set (remove_sessions g).
            session_messages (fst (cleanup_duplicate_chat_sessions st now)) r = []
            \<and> session_rows (fst (cleanup_duplicate_chat_sessions st now)) r = [])"
proof -
  let ?gs = "find_duplicate_chat_sessions st"
  let ?fp = "dg_fingerprint g"
  let ?members = "group_members st ?fp"
  let ?keep = "keep_session g" and ?removes = "remove_sessions g"
  let ?st' = "fst (cleanup_duplicate_chat_sessions st now)"
  from g have "?gs \<noteq> []" by auto
  from cleanup_with_duplicates [OF this, of now] obtain acc where
    st': "?st' = fst (merge_groups now ?gs (st, acc))"
    by blast
  \<comment> \<open>the group\<close>
  note foot = duplicate_group_footprint [OF commas g]
  have more: "length ?members > 1" by (rule foot(2))
  then obtain k rest where sorted: "by_size_then_recency ?members = k # rest"
    by (metis length_by_size_then_recency length_0_conv neq_Nil_conv not_less_zero)
  from head_by_size_then_recency [OF sorted]
  have k_in: "k \<in> set ?members"
    and best: "\<forall>m \<in> set ?members. total_messages m < total_messages k
           \<or> (total_messages m = total_messages k \<and> last_activity m \<le> last_activity k)"
    by blast+
  from foot(1) sorted have k_id: "session_id k = ?keep" by simp
  have d_ids: "distinct (map session_id ?members)"
    by (rule group_members_distinct_ids [OF uniq])
  have d_foot: "distinct (?keep # ?removes)"
    unfolding foot(1) by (simp add: distinct_map_by_size_then_recency d_ids)
  have foot_set: "set (?keep # ?removes) = session_id ` set ?members"
    by (rule duplicate_group_footprint_set [OF commas g])
  have removes: "set ?removes = session_id ` set ?members - {?keep}"
    using foot_set d_foot by auto
  \<comment> \<open>the pass\<close>
  have d_all: "distinct (concat (map (\<lambda>g. keep_session g # remove_sessions g) ?gs))"
    by (rule duplicate_groups_distinct_ids [OF uniq commas])
  from merge_groups_success [OF d_all unused, of now acc] g
  have abs: "absorbed st ?keep ?removes now ?st'"
    unfolding st' by blast
  then obtain new where
    app: "session_messages ?st' ?keep = session_messages st ?keep @ new"
    and keys: "map dedup_key new
        = new_keys (set (dedup_keys st ?keep)) (map dedup_key (incoming_messages st ?removes))"
    and cont: "list_all (\<lambda>row. list_ex (\<lambda>msg. same_content msg row) (incoming_messages st ?removes)) new"
    and row: "session_rows ?st' ?keep
        = map (\<lambda>s. s\<lparr>last_activity := now, total_messages := message_count ?st' ?keep\<rparr>)
            (session_rows st ?keep)"
    and gone: "list_all (\<lambda>r. session_messages ?st' r = [] \<and> session_rows ?st' r = []) ?removes"
    unfolding absorbed_def by blast
  \<comment> \<open>the messages of the survivor\<close>
  have dist: "distinct (map dedup_key new)"
    unfolding keys by (rule distinct_new_keys)
  have disj: "set (map dedup_key new) \<inter> set (dedup_keys st ?keep) = {}"
    unfolding keys set_new_keys by auto
  have "set (dedup_keys ?st' ?keep)
      = set (dedup_keys st ?keep) \<union> set (map dedup_key (incoming_messages st ?removes))"
    unfolding dedup_keys_def app using keys
    by (simp add: set_new_keys dedup_keys_def Un_Diff_cancel)
  also have "\<dots> = (\<Union>x \<in> set (?keep # ?removes). set (dedup_keys st x))"
    by (auto simp add: dedup_keys_def set_incoming_messages)
  also have "\<dots> = (\<Union>m \<in> set ?members. set (dedup_keys st (session_id m)))"
    unfolding foot_set by blast
  finally have union: "set (dedup_keys ?st' ?keep)
      = (\<Union>m \<in> set ?members. set (dedup_keys st (session_id m)))" .
  have content: "\<forall>row \<in> set new. \<exists>r \<in> set ?removes.
      \<exists>msg \<in> set (session_messages st r). same_content msg row"
    using cont by (auto simp add: list_all_iff list_ex_iff set_incoming_messages)
  have removed: "\<forall>r \<in> set ?removes. session_messages ?st' r = [] \<and> session_rows ?st' r = []"
    using gone by (simp add: list_all_iff)
  \<comment> \<open>the one session left\<close>
  from merge_groups_identities [of now ?gs st acc] obtain f where
    f: "\<forall>s. same_identity (f s) s"
    and sessions: "chat_sessions ?st' =
      map f (filter (\<lambda>s. session_id s \<notin> set (concat (map remove_sessions ?gs))) (chat_sessions st))"
    unfolding st' by blast
  have keep_stays: "?keep \<notin> set (concat (map remove_sessions ?gs))"
  proof
    assume "?keep \<in> set (concat (map remove_sessions ?gs))"
    then obtain h where h: "h \<in> set ?gs" and in_h: "?keep \<in> set (remove_sessions h)" by auto
    then have "?keep \<in> set (keep_session h # remove_sessions h)" by simp
    moreover have "?keep \<in> set (?keep # ?removes)" by simp
    ultimately have "g = h" by (rule duplicate_groups_share_no_id [OF uniq commas g h, rotated])
    with in_h d_foot show False by simp
  qed
  have "session_id m \<notin> set (concat (map remove_sessions ?gs)) \<longleftrightarrow> session_id m = session_id k"
    if m: "m \<in> set ?members" for m
  proof
    assume stays: "session_id m \<notin> set (concat (map remove_sessions ?gs))"
    have "session_id m \<in> set (?keep # ?removes)" using m foot_set by blast
    moreover have "session_id m \<notin> set ?removes" using stays g by auto
    ultimately show "session_id m = session_id k" using k_id by simp
  next
    assume "session_id m = session_id k"
    with keep_stays k_id show "session_id m \<notin> set (concat (map remove_sessions ?gs))" by simp
  qed
  then have "filter (\<lambda>s. session_id s \<notin> set (concat (map remove_sessions ?gs))) ?members
      = filter (\<lambda>s. session_id s = session_id k) ?members"
    by (intro filter_cong) simp_all
  also have "\<dots> = [k]"
    by (rule filter_same_key_singleton [OF d_ids k_in])
  finally have "group_members ?st' ?fp = [f k]"
    unfolding same_identity_group_members [OF f sessions] by simp
  moreover have "f k = k\<lparr>last_activity := now, total_messages := message_count ?st' ?keep\<rparr>"
  proof -
    have "k \<in> set (chat_sessions st)" using k_in group_members_subset by blast
    moreover have "distinct (map session_id (chat_sessions st))"
      using uniq by (simp add: unique_session_ids_def)
    ultimately have "filter (\<lambda>s. session_id s = session_id k) (chat_sessions st) = [k]"
      by (intro filter_same_key_singleton)
    then have "session_rows st ?keep = [k]" by (simp add: session_rows_def k_id)
    with row have one: "session_rows ?st' ?keep
        = [k\<lparr>last_activity := now, total_messages := message_count ?st' ?keep\<rparr>]"
      by simp
    have "f k \<in> set (group_members ?st' ?fp)" using \<open>group_members ?st' ?fp = [f k]\<close> by simp
    then have "f k \<in> set (chat_sessions ?st')" using group_members_subset by blast
    moreover have "session_id (f k) = ?keep" using f k_id by (simp add: same_identity_def)
    ultimately have "f k \<in> set (session_rows ?st' ?keep)" by (simp add: session_rows_def)
    with one show ?thesis by simp
  qed
  ultimately have survivor: "group_members ?st' ?fp
      = [k\<lparr>last_activity := now, total_messages := message_count ?st' ?keep\<rparr>]"
    by simp
  show ?thesis
    using more k_in k_id best removes survivor app dist disj union content removed
    by blast
qed

section \<open>Underscores in session ids and message keys\<close>

lemma count_char_Nil [simp]: "count_char c [] = 0"
  by (simp add: count_char_def)

lemma count_char_Cons [simp]:
  "count_char c (x # xs) = (if x = c then 1 else 0) + count_char c xs"
  by (simp add: count_char_def)

lemma count_char_append [simp]:
  "count_char c (xs @ ys) = count_char c xs + count_char c ys"
  by (simp add: count_char_def)

lemma count_char_absent:
  assumes "c \<notin> set s"
  shows "count_char c s = 0"
  using assms by (induction s) auto

lemma count_char_str_int [simp]: "count_char CHR ''_'' (str_int k) = 0"
  by (rule count_char_absent [OF str_int_no_underscore])

lemma platform_plain:
  assumes "platform \<in> set platforms"
  shows "count_char CHR ''_'' platform = 0" and "CHR '','' \<notin> set platform"
  using assms by (auto simp add: platforms_def)

lemma strftime_stamp_no_comma:
  assumes "strftime_stamp stamp"
  shows "CHR '','' \<notin> set stamp"
proof
  assume "CHR '','' \<in> set stamp"
  with assms have "decimal_digit CHR '','' \<or> CHR '','' = CHR ''_''"
    by (auto simp add: strftime_stamp_def list_all_iff)
  then show False by (simp add: decimal_digit_def)
qed

lemma made_id_created:
  assumes "platform \<in> set platforms" and "strftime_stamp stamp"
  shows "made_id (platform @ ''_'' @ stamp)"
  using assms platform_plain [OF assms(1)] strftime_stamp_no_comma [OF assms(2)]
  by (simp add: made_id_def strftime_stamp_def)

lemma derived_message_id_underscores:
  assumes "made_id sid"
  shows "count_char CHR ''_'' (derived_message_id sid k) = 3"
  using assms by (simp add: made_id_def derived_message_id_def)

lemma extract_message_data_key:
  assumes "extract_message_data word element = Some msg"
    and "count_char CHR ''_'' word = 0" and "plain_timestamp element"
  shows "\<exists>mid. r_message_id msg = Some mid \<and> count_char CHR ''_'' mid = 2"
proof -
  from assms(3) have "count_char CHR ''_'' (e_timestamp element) = 0"
    by (simp add: plain_timestamp_def count_char_absent)
  with assms(1,2) show ?thesis
    by (auto simp add: extract_message_data_def split: if_splits)
qed

lemma in_set_map_filter:
  "y \<in> set (List.map_filter f xs) \<longleftrightarrow> (\<exists>x \<in> set xs. f x = Some y)"
  by (induction xs) (auto simp add: map_filter_simps split: option.splits)

lemma parse_html_file_keys:
  assumes "platform \<in> set platforms" and "list_all plain_timestamp elements"
    and "msg \<in> set (parse_html_file platform elements)"
  shows "\<exists>mid. r_message_id msg = Some mid \<and> count_char CHR ''_'' mid = 2"
proof -
  from assms(3) obtain word element where
    w: "word = platform \<or> word = ''generic''" and e: "element \<in> set elements"
    and m: "extract_message_data word element = Some msg"
    by (auto simp add: parse_html_file_def in_set_map_filter split: if_splits)
  from w assms(1) have "count_char CHR ''_'' word = 0"
    by (auto simp add: platform_plain)
  moreover from e assms(2) have "plain_timestamp element"
    by (simp add: list_all_iff)
  ultimately show ?thesis
    using m by (rule extract_message_data_key [rotated])
qed

section \<open>The rows a session creation adds\<close>

lemma set_orders_message_ids:
  "map r_message_id (set_orders i batch) = map r_message_id batch"
  by (induction batch arbitrary: i) simp_all

lemma save_chat_messages_loop_effect:
  "chat_sessions (fst (save_chat_messages_loop sid now batch (st, k))) = chat_sessions st
   \<and> (\<exists>new. chat_messages (fst (save_chat_messages_loop sid now batch (st, k)))
               = chat_messages st @ new
          \<and> (\<forall>row \<in> set new. m_session_id row = sid
                \<and> Some (message_id row) \<in> set (map r_message_id batch)))"
proof (induction batch arbitrary: st k)
  case Nil
  show ?case by simp
next
  case (Cons msg rest)
  show ?case
  proof (cases "\<exists>mid sndr sty body ts pos. r_message_id msg = Some mid \<and> r_sender msg = Some sndr
      \<and> r_sender_type msg = Some sty \<and> r_text msg = Some body \<and> r_timestamp msg = Some ts
      \<and> r_order msg = Some pos")
    case False
    then have "save_chat_messages_loop sid now (msg # rest) (st, k)
        = save_chat_messages_loop sid now rest (st, k)"
      by (auto split: option.splits)
    with Cons.IH [of st k] show ?thesis by auto
  next
    case True
    then obtain mid sndr sty body ts pos where
      f: "r_message_id msg = Some mid" "r_sender msg = Some sndr" "r_sender_type msg = Some sty"
        "r_text msg = Some body" "r_timestamp msg = Some ts" "r_order msg = Some pos"
      by blast
    let ?row = "\<lparr> m_session_id = sid, message_id = mid, sender = sndr, sender_type = sty,
                    message_text = body, timestamp = numeric_affinity ts,
                    message_order = pos, scraped_at = now \<rparr>"
    show ?thesis
    proof (cases "mid \<in> set (map message_id (chat_messages st))")
      case True
      with f have "save_chat_messages_loop sid now (msg # rest) (st, k)
          = save_chat_messages_loop sid now rest (st, k)"
        by (simp add: insert_message_def)
      with Cons.IH [of st k] show ?thesis by auto
    next
      case False
      let ?st1 = "st\<lparr>chat_messages := chat_messages st @ [?row]\<rparr>"
      from False f have step: "save_chat_messages_loop sid now (msg # rest) (st, k)
          = save_chat_messages_loop sid now rest (?st1, k + 1)"
        by (simp add: insert_message_def)
      from Cons.IH [of ?st1 "k + 1"] obtain new where
        s: "chat_sessions (fst (save_chat_messages_loop sid now rest (?st1, k + 1)))
              = chat_sessions st"
        and app: "chat_messages (fst (save_chat_messages_loop sid now rest (?st1, k + 1)))
              = chat_messages st @ ?row # new"
        and rows: "\<forall>row \<in> set new. m_session_id row = sid
                \<and> Some (message_id row) \<in> set (map r_message_id rest)"
        by auto
      from rows f(1) have "\<forall>row \<in> set (?row # new). m_session_id row = sid
                \<and> Some (message_id row) \<in> set (map r_message_id (msg # rest))"
        by auto
      with s app show ?thesis
        unfolding step by blast
    qed
  qed
qed

lemma save_to_database_None:
  "fst (save_to_database st messages platform None stamp now)
     = fst (save_chat_messages_loop (platform @ ''_'' @ stamp) now (set_orders 0 messages)
              (st\<lparr>chat_sessions :=
                    filter (\<lambda>s. session_id s \<noteq> platform @ ''_'' @ stamp) (chat_sessions st)
                    @ [\<lparr> session_id = platform @ ''_'' @ stamp, chat_platform = Some platform,
                         chat_title = Some (py_title platform @ '' Chat Session''),
                         participant_name = Some ''Unknown'', chat_url = Some [],
                         started_at = now, last_activity = now,
                         total_messages = int (length messages), status = Some ''active'',
                         phase = None, phase_confidence = None, phase_updated_at = None,
                         created_at = now \<rparr>]\<rparr>, 0))"
  by (simp add: save_to_database_def save_chat_session_def save_chat_messages_def
      new_session_row_def dict_get_def Let_def)

lemma save_to_database_created:
  "\<exists>row. session_id row = platform @ ''_'' @ stamp \<and> status row = Some ''active''
     \<and> fst (save_to_database st messages platform None stamp now)
         = fst (save_chat_messages_loop (platform @ ''_'' @ stamp) now (set_orders 0 messages)
                  (st\<lparr>chat_sessions :=
                        filter (\<lambda>s. session_id s \<noteq> platform @ ''_'' @ stamp) (chat_sessions st)
                        @ [row]\<rparr>, 0))"
  unfolding save_to_database_None
  by (intro exI [of _ "\<lparr> session_id = platform @ ''_'' @ stamp, chat_platform = Some platform,
                         chat_title = Some (py_title platform @ '' Chat Session''),
                         participant_name = Some ''Unknown'', chat_url = Some [],
                         started_at = now, last_activity = now,
                         total_messages = int (length messages), status = Some ''active'',
                         phase = None, phase_confidence = None, phase_updated_at = None,
                         created_at = now \<rparr>"]) simp

lemma save_to_database_well_formed:
  assumes wf: "well_formed st" and p: "platform \<in> set platforms" and stamp: "strftime_stamp stamp"
    and keys: "\<forall>msg \<in> set messages. \<exists>mid. r_message_id msg = Some mid \<and> count_char CHR ''_'' mid = 2"
  shows "well_formed (fst (save_to_database st messages platform None stamp now))"
proof -
  let ?sid = "platform @ ''_'' @ stamp"
  from save_to_database_created [of platform stamp st messages now] obtain row where
    row: "session_id row = ?sid" "status row = Some ''active''"
    and res: "fst (save_to_database st messages platform None stamp now)
         = fst (save_chat_messages_loop ?sid now (set_orders 0 messages)
                  (st\<lparr>chat_sessions := filter (\<lambda>s. session_id s \<noteq> ?sid) (chat_sessions st) @ [row]\<rparr>, 0))"
    by blast
  let ?st1 = "st\<lparr>chat_sessions := filter (\<lambda>s. session_id s \<noteq> ?sid) (chat_sessions st) @ [row]\<rparr>"
  from save_chat_messages_loop_effect [of ?sid now "set_orders 0 messages" ?st1 0] obtain new where
    s: "chat_sessions (fst (save_to_database st messages platform None stamp now))
          = filter (\<lambda>s. session_id s \<noteq> ?sid) (chat_sessions st) @ [row]"
    and app: "chat_messages (fst (save_to_database st messages platform None stamp now))
          = chat_messages st @ new"
    and rows: "\<forall>r \<in> set new. Some (message_id r) \<in> set (map r_message_id messages)"
    unfolding res set_orders_message_ids by auto
  have "distinct (map session_id (filter (\<lambda>s. session_id s \<noteq> ?sid) (chat_sessions st)))"
    using wf by (simp add: well_formed_def unique_session_ids_def distinct_map_filter)
  then have u: "unique_session_ids (fst (save_to_database st messages platform None stamp now))"
    unfolding unique_session_ids_def s using row(1) by auto
  have m: "list_all (\<lambda>s. made_id (session_id s) \<and> status s = Some ''active'')
      (chat_sessions (fst (save_to_database st messages platform None stamp now)))"
    unfolding s using wf row made_id_created [OF p stamp]
    by (auto simp add: well_formed_def list_all_iff)
  have "\<forall>r \<in> set new. keyed_row r"
  proof
    fix r assume "r \<in> set new"
    with rows obtain msg where "msg \<in> set messages" "r_message_id msg = Some (message_id r)"
      by force
    with keys show "keyed_row r" by (auto simp add: keyed_row_def)
  qed
  then have k: "list_all keyed_row
      (chat_messages (fst (save_to_database st messages platform None stamp now)))"
    unfolding app using wf by (auto simp add: well_formed_def list_all_iff)
  from u m k show ?thesis by (simp add: well_formed_def)
qed

section \<open>The rows an ingest and a merge add\<close>

lemma ingest_loop_keyed:
  assumes "ingest_loop sid now batch (st, mo, k) = Inr (st', mo', k')"
    and "list_all keyed_row (chat_messages st)"
  shows "list_all keyed_row (chat_messages st')"
  using assms
proof (induction batch arbitrary: st mo k)
  case Nil
  then show ?case by simp
next
  case (Cons msg rest)
  show ?case
  proof (cases rule: ingest_loop_cases [where msg=msg and st=st and sid=sid and mo=mo])
    case missing_key
    from Cons.prems(1) show ?thesis unfolding ingest_loop_missing_key [OF missing_key] by simp
  next
    case (duplicate s t)
    from Cons.prems(1) have "ingest_loop sid now rest (st, mo, k) = Inr (st', mo', k')"
      unfolding ingest_loop_duplicate [OF duplicate] .
    then show ?thesis using Cons.prems(2) by (rule Cons.IH)
  next
    case (written s t sty ts)
    let ?row = "\<lparr> m_session_id = sid, message_id = derived_message_id sid (mo + 1),
                      sender = s, sender_type = sty, message_text = t,
                      timestamp = numeric_affinity ts,
                      message_order = mo + 1, scraped_at = now \<rparr>"
    let ?st1 = "st\<lparr>chat_messages := chat_messages st @ [?row]\<rparr>"
    from Cons.prems(1) have "ingest_loop sid now rest (?st1, mo + 1, k + 1) = Inr (st', mo', k')"
      unfolding ingest_loop_written [OF written] .
    moreover have "keyed_row ?row" by (simp add: keyed_row_def)
    with Cons.prems(2) have "list_all keyed_row (chat_messages ?st1)" by simp
    ultimately show ?thesis by (rule Cons.IH)
  next
    case (not_written s t)
    from Cons.prems(1) have "ingest_loop sid now rest (st, mo + 1, k) = Inr (st', mo', k')"
      unfolding ingest_loop_not_written [OF not_written] .
    then show ?thesis using Cons.prems(2) by (rule Cons.IH)
  qed
qed

lemma identities_well_formed:
  assumes wf: "well_formed st"
    and same: "\<forall>s. same_identity (f s) s"
    and sessions: "chat_sessions st' = map f (filter P (chat_sessions st))"
    and rows: "list_all keyed_row (chat_messages st')"
  shows "well_formed st'"
proof -
  from same have ids: "map session_id (map f xs) = map session_id xs" for xs
    by (simp add: same_identity_def)
  have "distinct (map session_id (filter P (chat_sessions st)))"
    using wf by (simp add: well_formed_def unique_session_ids_def distinct_map_filter)
  then have "unique_session_ids st'"
    unfolding unique_session_ids_def sessions ids .
  moreover have "list_all (\<lambda>s. made_id (session_id s) \<and> status s = Some ''active'') (chat_sessions st')"
    unfolding sessions using wf same
    by (auto simp add: well_formed_def list_all_iff same_identity_def)
  ultimately show ?thesis using rows by (simp add: well_formed_def)
qed

lemma update_existing_session_well_formed:
  assumes wf: "well_formed st" and upd: "update_existing_session st sid batch now = Inr (st', n)"
  shows "well_formed st'"
proof (cases "ingest_loop sid now batch (st, max_message_order st sid, 0)")
  case (Inl e)
  with upd show ?thesis by (simp add: update_existing_session_def get_connection_def)
next
  case (Inr res)
  obtain st1 mo1 k1 where res: "res = (st1, mo1, k1)" by (cases res)
  with Inr have loop: "ingest_loop sid now batch (st, max_message_order st sid, 0) = Inr (st1, mo1, k1)"
    by simp
  with upd have st': "st' = refresh_rollup st1 sid now"
    by (simp add: update_existing_session_def get_connection_def)
  from ingest_loop_effect [OF loop] have s1: "chat_sessions st1 = chat_sessions st" by blast
  from wf have "list_all keyed_row (chat_messages st)" by (simp add: well_formed_def)
  with loop have k1: "list_all keyed_row (chat_messages st1)" by (rule ingest_loop_keyed)
  let ?f = "\<lambda>s. if session_id s = sid
               then s\<lparr>last_activity := now, total_messages := message_count st1 sid\<rparr> else s"
  have "\<forall>s. same_identity (?f s) s" by (simp add: same_identity_def)
  moreover have "chat_sessions st' = map ?f (filter (\<lambda>s. True) (chat_sessions st))"
    unfolding st' refresh_rollup_sessions s1 by simp
  moreover have "list_all keyed_row (chat_messages st')"
    unfolding st' using k1 by simp
  ultimately show ?thesis by (rule identities_well_formed [OF wf])
qed

lemma merge_messages_keyed:
  assumes "list_all keyed_row (chat_messages st)"
  shows "list_all keyed_row (chat_messages (fst (merge_messages keep msgs (st, mo, stats))))"
  using assms
proof (induction msgs arbitrary: st mo stats)
  case Nil
  then show ?case by simp
next
  case (Cons msg rest)
  show ?case
  proof (cases rule: merge_messages_cases [where msg=msg and st=st and keep=keep and mo=mo])
    case duplicate
    show ?thesis
      unfolding merge_messages_duplicate [OF duplicate] using Cons.prems by (rule Cons.IH)
  next
    case written
    let ?row = "\<lparr> m_session_id = keep, message_id = derived_message_id keep (mo + 1),
                      sender = sender msg, sender_type = sender_type msg,
                      message_text = message_text msg, timestamp = timestamp msg,
                      message_order = mo + 1, scraped_at = scraped_at msg \<rparr>"
    have "keyed_row ?row" by (simp add: keyed_row_def)
    with Cons.prems
    have "list_all keyed_row (chat_messages (st\<lparr>chat_messages := chat_messages st @ [?row]\<rparr>))"
      by simp
    then show ?thesis
      unfolding merge_messages_written [OF written] by (rule Cons.IH)
  next
    case not_written
    show ?thesis
      unfolding merge_messages_not_written [OF not_written] using Cons.prems by (rule Cons.IH)
  qed
qed

lemma merge_sessions_keyed:
  assumes "list_all keyed_row (chat_messages st)"
  shows "list_all keyed_row (chat_messages (fst (merge_sessions keep removes (st, mo, stats))))"
  using assms
proof (induction removes arbitrary: st mo stats)
  case Nil
  then show ?case by simp
next
  case (Cons r rest)
  obtain st1 mo1 stats1 where
    mm: "merge_messages keep (sort_key message_order (session_messages st r)) (st, mo, stats)
          = (st1, mo1, stats1)"
    by (metis prod_cases3)
  from merge_messages_keyed [OF Cons.prems, of keep "sort_key message_order (session_messages st r)" mo stats]
  have "list_all keyed_row (chat_messages st1)" unfolding mm by simp
  then have "list_all keyed_row (chat_messages (delete_session st1 r))"
    by (simp add: delete_session_def list_all_iff)
  then have "list_all keyed_row (chat_messages (fst (merge_sessions keep rest
      (delete_session st1 r, mo1, stats1\<lparr>sessions_removed := sessions_removed stats1 + 1\<rparr>))))"
    by (rule Cons.IH)
  then show ?case by (simp only: merge_sessions_step [OF mm])
qed

lemma merge_groups_keyed:
  assumes "list_all keyed_row (chat_messages st)"
  shows "list_all keyed_row (chat_messages (fst (merge_groups now gs (st, acc))))"
  using assms
proof (induction gs arbitrary: st acc)
  case Nil
  then show ?case by simp
next
  case (Cons g rest)
  from Cons.prems
  have "list_all keyed_row
      (chat_messages (fst (merge_chat_sessions st (keep_session g) (remove_sessions g) now)))"
    unfolding merge_chat_sessions_messages by (rule merge_sessions_keyed)
  then show ?case
    unfolding merge_groups_step by (rule Cons.IH)
qed

lemma cleanup_well_formed:
  assumes wf: "well_formed st"
  shows "well_formed (fst (cleanup_duplicate_chat_sessions st now))"
proof (cases "find_duplicate_chat_sessions st = []")
  case True
  with wf show ?thesis by (simp add: cleanup_duplicate_chat_sessions_def)
next
  case False
  from cleanup_with_duplicates [OF False, of now] obtain acc where
    st': "fst (cleanup_duplicate_chat_sessions st now)
            = fst (merge_groups now (find_duplicate_chat_sessions st) (st, acc))"
    by blast
  from merge_groups_identities [of now "find_duplicate_chat_sessions st" st acc] obtain f where
    f: "\<forall>s. same_identity (f s) s"
    and sessions: "chat_sessions (fst (merge_groups now (find_duplicate_chat_sessions st) (st, acc))) =
      map f (filter (\<lambda>s. session_id s \<notin> set (concat (map remove_sessions (find_duplicate_chat_sessions st))))
               (chat_sessions st))"
    by blast
  from wf have "list_all keyed_row (chat_messages st)" by (simp add: well_formed_def)
  then have "list_all keyed_row
      (chat_messages (fst (merge_groups now (find_duplicate_chat_sessions st) (st, acc))))"
    by (rule merge_groups_keyed)
  with wf f sessions show ?thesis
    unfolding st' by (rule identities_well_formed)
qed

lemma update_session_phase_well_formed:
  assumes wf: "well_formed st"
  shows "well_formed (fst (update_session_phase st sid ph confidence now))"
proof -
  let ?f = "\<lambda>s. if session_id s = sid
               then s\<lparr>phase := Some ph, phase_confidence := Some confidence,
                      phase_updated_at := Some now\<rparr>
               else s"
  have "\<forall>s. same_identity (?f s) s" by (simp add: same_identity_def)
  moreover have "chat_sessions (fst (update_session_phase st sid ph confidence now))
      = map ?f (filter (\<lambda>s. True) (chat_sessions st))"
    by (simp add: update_session_phase_def)
  moreover have "list_all keyed_row (chat_messages (fst (update_session_phase st sid ph confidence now)))"
    using wf by (simp add: update_session_phase_def well_formed_def)
  ultimately show ?thesis by (rule identities_well_formed [OF wf])
qed

section \<open>What holds of every store the code builds\<close>

lemma built_well_formed:
  assumes "built st"
  shows "well_formed st"
  using assms
proof (induction rule: built.induct)
  case built_empty
  show ?case by (simp add: well_formed_def unique_session_ids_def)
next
  case (built_create st platform stamp elements now)
  from built_create(2,4) have "\<forall>msg \<in> set (parse_html_file platform elements).
      \<exists>mid. r_message_id msg = Some mid \<and> count_char CHR ''_'' mid = 2"
    using parse_html_file_keys by blast
  with built_create(5,2,3) show ?case by (rule save_to_database_well_formed)
next
  case (built_update st sid new_messages now st' saved_count)
  from built_update(4,3) show ?case by (rule update_existing_session_well_formed)
next
  case (built_cleanup st now)
  then show ?case by (simp add: cleanup_well_formed)
next
  case (built_phase st sid ph confidence now)
  then show ?case by (simp add: update_session_phase_well_formed)
qed

lemma well_formed_keys_unused:
  assumes wf: "well_formed st" and sid: "made_id sid"
  shows "keys_unused st sid"
  unfolding keys_unused_def
proof (intro allI impI notI)
  fix j
  assume j: "max_message_order st sid < j"
    and "derived_message_id sid j \<in> set (map message_id (chat_messages st))"
  then obtain row where row: "row \<in> set (chat_messages st)"
    and mid: "message_id row = derived_message_id sid j"
    by auto
  from wf row have "keyed_row row" by (simp add: well_formed_def list_all_iff)
  then show False
    unfolding keyed_row_def
  proof
    assume "count_char CHR ''_'' (message_id row) = 2"
    with derived_message_id_underscores [OF sid, of j] mid show False by simp
  next
    assume "message_id row = derived_message_id (m_session_id row) (message_order row)"
    with mid have "derived_message_id (m_session_id row) (message_order row) = derived_message_id sid j"
      by simp
    from derived_message_id_inj [OF this] have "m_session_id row = sid" "message_order row = j"
      by simp_all
    with row have "row \<in> set (session_messages st sid)" by (simp add: session_messages_def)
    from max_message_order_ge [OF this] j \<open>message_order row = j\<close> show False by simp
  qed
qed

lemma well_formed_made_id:
  assumes "well_formed st" and "sid \<in> set (map session_id (chat_sessions st))"
  shows "made_id sid"
  using assms by (auto simp add: well_formed_def list_all_iff)

lemma well_formed_comma_free:
  assumes "well_formed st"
  shows "comma_free_ids st"
  using assms by (auto simp add: well_formed_def comma_free_ids_def list_all_iff made_id_def)

lemma well_formed_unique:
  assumes "well_formed st"
  shows "unique_session_ids st"
  using assms by (simp add: well_formed_def)

lemma well_formed_active:
  assumes "well_formed st" and "s \<in> set (chat_sessions st)"
  shows "status s = Some ''active''"
  using assms by (auto simp add: well_formed_def list_all_iff)

section \<open>The example scrapes\<close>

lemma save_to_database_sessions:
  "chat_sessions (fst (save_to_database st messages platform None stamp now))
     = filter (\<lambda>s. session_id s \<noteq> platform @ ''_'' @ stamp) (chat_sessions st)
       @ [\<lparr> session_id = platform @ ''_'' @ stamp, chat_platform = Some platform,
            chat_title = Some (py_title platform @ '' Chat Session''),
            participant_name = Some ''Unknown'', chat_url = Some [],
            started_at = now, last_activity = now,
            total_messages = int (length messages), status = Some ''active'',
            phase = None, phase_confidence = None, phase_updated_at = None,
            created_at = now \<rparr>]"
  unfolding save_to_database_None using save_chat_messages_loop_effect by simp

lemma built_one_scrape_store: "built one_scrape_store"
  unfolding one_scrape_store_def
  by (rule built_create [OF built_empty])
    (simp_all add: platforms_def strftime_stamp_def decimal_digit_def morning_elements_def
      plain_timestamp_def)

lemma built_two_scrape_store: "built two_scrape_store"
  unfolding two_scrape_store_def
  by (rule built_create [OF built_one_scrape_store])
    (simp_all add: platforms_def strftime_stamp_def decimal_digit_def later_elements_def
      plain_timestamp_def)

lemma built_same_second_store: "built same_second_store"
  unfolding same_second_store_def
  by (rule built_create [OF built_one_scrape_store])
    (simp_all add: platforms_def strftime_stamp_def decimal_digit_def later_elements_def
      plain_timestamp_def)

lemma title_upwork: "py_title ''upwork'' = ''Upwork''"
  by (simp add: py_title_def ascii_lower_def ascii_upper_def)

lemma one_scrape_store_sessions:
  "chat_sessions one_scrape_store =
     [\<lparr> session_id = ''upwork_20250101_100000'', chat_platform = Some ''upwork'',
        chat_title = Some ''Upwork Chat Session'', participant_name = Some ''Unknown'',
        chat_url = Some [], started_at = 10, last_activity = 10, total_messages = 2,
        status = Some ''active'', phase = None, phase_confidence = None,
        phase_updated_at = None, created_at = 10 \<rparr>]"
  unfolding one_scrape_store_def save_to_database_sessions
  by (simp add: title_upwork parse_html_file_def morning_elements_def extract_message_data_def
      map_filter_simps)

lemma two_scrape_store_sessions:
  "chat_sessions two_scrape_store =
     [\<lparr> session_id = ''upwork_20250101_100000'', chat_platform = Some ''upwork'',
        chat_title = Some ''Upwork Chat Session'', participant_name = Some ''Unknown'',
        chat_url = Some [], started_at = 10, last_activity = 10, total_messages = 2,
        status = Some ''active'', phase = None, phase_confidence = None,
        phase_updated_at = None, created_at = 10 \<rparr>,
      \<lparr> session_id = ''upwork_20250101_101000'', chat_platform = Some ''upwork'',
        chat_title = Some ''Upwork Chat Session'', participant_name = Some ''Unknown'',
        chat_url = Some [], started_at = 20, last_activity = 20, total_messages = 3,
        status = Some ''active'', phase = None, phase_confidence = None,
        phase_updated_at = None, created_at = 20 \<rparr>]"
  unfolding two_scrape_store_def save_to_database_sessions one_scrape_store_sessions
  by (simp add: title_upwork parse_html_file_def later_elements_def extract_message_data_def
      map_filter_simps)

section \<open>Session resolution\<close>

text \<open>
  C7. In a store the code builds every session is active, \<open>save_chat_session\<close> being the
  one writer of the status. So the resolver, whose query looks at every session, searches
  the active sessions whose platform, title and participant equal the three strings: it
  answers none exactly when no active session matches; an answer is the id of an active
  matching session that no other active matching session beats on message count, nor, at
  equal count, on last activity; and the store it hands back is the store it was given.
\<close>

theorem chat_session_exists_resolves:
  assumes "built st"
  shows "snd (chat_session_exists st platform title participant) = st
   \<and> (fst (chat_session_exists st platform title participant) = None
        \<longleftrightarrow> active_matches st platform title participant = [])
   \<and> (\<forall>sid. fst (chat_session_exists st platform title participant) = Some sid \<longrightarrow>
        (\<exists>r \<in> set (active_matches st platform title participant).
            session_id r = sid
            \<and> (\<forall>s \<in> set (active_matches st platform title participant).
                  total_messages s < total_messages r
                  \<or> (total_messages s = total_messages r \<and> last_activity s \<le> last_activity r))))"
proof -
  note wf = built_well_formed [OF assms]
  have am: "active_matches st platform title participant
      = filter (session_matches platform title participant) (chat_sessions st)"
    unfolding active_matches_def using well_formed_active [OF wf]
    by (intro filter_cong) auto
  let ?rows = "filter (session_matches platform title participant) (chat_sessions st)"
  from chat_session_exists_all_matches [of st platform title participant]
  have a: "snd (chat_session_exists st platform title participant) = st"
    and b: "fst (chat_session_exists st platform title participant) = None \<longleftrightarrow> ?rows = []"
    and c: "\<forall>sid. fst (chat_session_exists st platform title participant) = Some sid \<longrightarrow>
        (\<exists>r \<in> set (chat_sessions st).
            session_id r = sid \<and> session_matches platform title participant r
            \<and> (\<forall>s \<in> set (chat_sessions st). session_matches platform title participant s \<longrightarrow>
                  total_messages s < total_messages r
                  \<or> (total_messages s = total_messages r \<and> last_activity s \<le> last_activity r)))"
    by blast+
  have "\<forall>sid. fst (chat_session_exists st platform title participant) = Some sid \<longrightarrow>
        (\<exists>r \<in> set ?rows. session_id r = sid
            \<and> (\<forall>s \<in> set ?rows.
                  total_messages s < total_messages r
                  \<or> (total_messages s = total_messages r \<and> last_activity s \<le> last_activity r)))"
  proof (intro allI impI)
    fix sid
    assume "fst (chat_session_exists st platform title participant) = Some sid"
    with c obtain r where r: "r \<in> set (chat_sessions st)" "session_id r = sid"
        "session_matches platform title participant r"
      and best: "\<forall>s \<in> set (chat_sessions st). session_matches platform title participant s \<longrightarrow>
                  total_messages s < total_messages r
                  \<or> (total_messages s = total_messages r \<and> last_activity s \<le> last_activity r)"
      by blast
    from r best show "\<exists>r \<in> set ?rows. session_id r = sid
            \<and> (\<forall>s \<in> set ?rows.
                  total_messages s < total_messages r
                  \<or> (total_messages s = total_messages r \<and> last_activity s \<le> last_activity r))"
      by (intro bexI [of _ r]) auto
  qed
  with a b show ?thesis unfolding am by (intro conjI)
qed

theorem chat_session_exists_resolves_witness:
  "built two_scrape_store
   \<and> map session_id (active_matches two_scrape_store ''upwork'' ''Upwork Chat Session'' ''Unknown'')
       = [''upwork_20250101_100000'', ''upwork_20250101_101000'']
   \<and> fst (chat_session_exists two_scrape_store ''upwork'' ''Upwork Chat Session'' ''Unknown'')
       = Some ''upwork_20250101_101000''
   \<and> snd (chat_session_exists two_scrape_store ''upwork'' ''Upwork Chat Session'' ''Unknown'')
       = two_scrape_store"
proof -
  have a: "map session_id (active_matches two_scrape_store ''upwork'' ''Upwork Chat Session'' ''Unknown'')
       = [''upwork_20250101_100000'', ''upwork_20250101_101000'']"
    by (simp add: active_matches_def session_matches_def two_scrape_store_sessions)
  have b: "fst (chat_session_exists two_scrape_store ''upwork'' ''Upwork Chat Session'' ''Unknown'')
       = Some ''upwork_20250101_101000''"
    by (simp add: chat_session_exists_def get_connection_def by_size_then_recency_def
        session_matches_def two_scrape_store_sessions)
  from chat_session_exists_resolves [OF built_two_scrape_store,
      of "''upwork''" "''Upwork Chat Session''" "''Unknown''"]
  have c: "snd (chat_session_exists two_scrape_store ''upwork'' ''Upwork Chat Session'' ''Unknown'')
       = two_scrape_store"
    by blast
  from built_two_scrape_store a b c show ?thesis by (intro conjI)
qed

section \<open>Idempotent ingest\<close>

text \<open>
  C1. Take a store the code builds, one of its sessions and a batch whose messages carry
  their four fields. The first ingest returns, and ingesting the same batch again skips
  every message because its dedup key is in the session: the second call returns 0 and
  leaves the message rows, the session's dedup keys, its live count and its stored total
  as the first call left them.
\<close>

theorem reingest_is_noop:
  assumes "built st" and "sid \<in> set (map session_id (chat_sessions st))"
    and "complete_batch batch"
  shows "\<exists>st1 n1 st2. update_existing_session st sid batch t1 = Inr (st1, n1)
           \<and> update_existing_session st1 sid batch t2 = Inr (st2, 0)
           \<and> set (batch_keys batch) \<subseteq> set (dedup_keys st1 sid)
           \<and> chat_messages st2 = chat_messages st1
           \<and> dedup_keys st2 sid = dedup_keys st1 sid
           \<and> message_count st2 sid = message_count st1 sid
           \<and> map total_messages (chat_sessions st2) = map total_messages (chat_sessions st1)"
proof -
  note wf = built_well_formed [OF assms(1)]
  have "keys_unused st sid"
    by (rule well_formed_keys_unused [OF wf well_formed_made_id [OF wf assms(2)]])
  with assms(3) show ?thesis by (rule reingest_with_unused_keys)
qed

theorem reingest_is_noop_witness:
  "built one_scrape_store
   \<and> ''upwork_20250101_100000'' \<in> set (map session_id (chat_sessions one_scrape_store))
   \<and> complete_batch overlapping_batch
   \<and> (\<exists>st1 n1 st2.
         update_existing_session one_scrape_store ''upwork_20250101_100000'' overlapping_batch 30
           = Inr (st1, n1)
         \<and> update_existing_session st1 ''upwork_20250101_100000'' overlapping_batch 40 = Inr (st2, 0)
         \<and> set (batch_keys overlapping_batch) \<subseteq> set (dedup_keys st1 ''upwork_20250101_100000'')
         \<and> chat_messages st2 = chat_messages st1
         \<and> dedup_keys st2 ''upwork_20250101_100000'' = dedup_keys st1 ''upwork_20250101_100000''
         \<and> message_count st2 ''upwork_20250101_100000'' = message_count st1 ''upwork_20250101_100000''
         \<and> map total_messages (chat_sessions st2) = map total_messages (chat_sessions st1))"
proof -
  have a: "''upwork_20250101_100000'' \<in> set (map session_id (chat_sessions one_scrape_store))"
    by (simp add: one_scrape_store_sessions)
  have b: "complete_batch overlapping_batch"
    by (simp add: complete_batch_def complete_message_def overlapping_batch_def example_message_def)
  from reingest_is_noop [OF built_one_scrape_store a b, of 30 40] built_one_scrape_store a b
  show ?thesis by (intro conjI)
qed

section \<open>Overlapping batches\<close>

text \<open>
  C2. Take a store the code builds, one of its sessions and two batches whose messages
  carry their four fields. Both ingests return; each only appends rows, so a message
  stored by the first ingest keeps its row and order position; the session ends up with
  the keys it had and the keys of both batches, each new key stored once; and the rows of
  the second ingest are the genuinely new messages of the second batch in batch order, the
  first of them at the session's maximum order plus one and each next one a position
  higher.
\<close>

theorem overlapping_batches_union:
  assumes "built st" and "sid \<in> set (map session_id (chat_sessions st))"
    and "complete_batch b1" and "complete_batch b2"
  shows "\<exists>st1 st2 new1 new2.
           update_existing_session st sid b1 t1 = Inr (st1, length new1)
           \<and> update_existing_session st1 sid b2 t2 = Inr (st2, length new2)
           \<and> chat_messages st1 = chat_messages st @ new1
           \<and> chat_messages st2 = chat_messages st1 @ new2
           \<and> session_messages st2 sid = session_messages st sid @ new1 @ new2
           \<and> set (dedup_keys st2 sid)
               = set (dedup_keys st sid) \<union> set (batch_keys b1) \<union> set (batch_keys b2)
           \<and> distinct (map dedup_key (new1 @ new2))
           \<and> set (map dedup_key (new1 @ new2)) \<inter> set (dedup_keys st sid) = {}
           \<and> map dedup_key new2 = new_keys (set (dedup_keys st1 sid)) (batch_keys b2)
           \<and> (\<forall>i < length new2. message_order (new2 ! i) = max_message_order st1 sid + 1 + int i)"
    (is "\<exists>st1 st2 new1 new2. ?union st1 st2 new1 new2")
proof -
  note wf = built_well_formed [OF assms(1)]
  have unused: "keys_unused st sid"
    by (rule well_formed_keys_unused [OF wf well_formed_made_id [OF wf assms(2)]])
  from overlapping_batches_with_unused_keys [OF assms(3,4) unused, of t1 t2]
  obtain st1 st2 new1 new2 where
    "update_existing_session st sid b1 t1 = Inr (st1, length new1)
           \<and> update_existing_session st1 sid b2 t2 = Inr (st2, length new2)
           \<and> chat_messages st1 = chat_messages st @ new1
           \<and> chat_messages st2 = chat_messages st1 @ new2
           \<and> session_messages st2 sid = session_messages st sid @ new1 @ new2
           \<and> set (dedup_keys st2 sid)
               = set (dedup_keys st sid) \<union> set (batch_keys b1) \<union> set (batch_keys b2)
           \<and> distinct (map dedup_key (new1 @ new2))
           \<and> set (map dedup_key (new1 @ new2)) \<inter> set (dedup_keys st sid) = {}
           \<and> map dedup_key new2 = new_keys (set (dedup_keys st1 sid)) (batch_keys b2)
           \<and> (\<forall>i < length new2. message_order (new2 ! i) = max_message_order st1 sid + 1 + int i)
           \<and> (\<forall>row \<in> set new2. \<exists>msg \<in> set b2. from_message msg row)"
    by blast
  then have "?union st1 st2 new1 new2" by (elim conjE) (intro conjI; assumption)
  then show ?thesis by blast
qed

theorem overlapping_batches_union_witness:
  "built one_scrape_store
   \<and> ''upwork_20250101_100000'' \<in> set (map session_id (chat_sessions one_scrape_store))
   \<and> complete_batch two_message_batch \<and> complete_batch overlapping_batch
   \<and> (\<exists>st1 st2 new1 new2.
         update_existing_session one_scrape_store ''upwork_20250101_100000'' two_message_batch 30
           = Inr (st1, length new1)
         \<and> update_existing_session st1 ''upwork_20250101_100000'' overlapping_batch 40
             = Inr (st2, length new2)
         \<and> chat_messages st1 = chat_messages one_scrape_store @ new1
         \<and> chat_messages st2 = chat_messages st1 @ new2
         \<and> session_messages st2 ''upwork_20250101_100000''
             = session_messages one_scrape_store ''upwork_20250101_100000'' @ new1 @ new2
         \<and> set (dedup_keys st2 ''upwork_20250101_100000'')
             = set (dedup_keys one_scrape_store ''upwork_20250101_100000'')
               \<union> set (batch_keys two_message_batch) \<union> set (batch_keys overlapping_batch)
         \<and> distinct (map dedup_key (new1 @ new2))
         \<and> set (map dedup_key (new1 @ new2))
             \<inter> set (dedup_keys one_scrape_store ''upwork_20250101_100000'') = {}
         \<and> map dedup_key new2
             = new_keys (set (dedup_keys st1 ''upwork_20250101_100000'')) (batch_keys overlapping_batch)
         \<and> (\<forall>i < length new2. message_order (new2 ! i)
               = max_message_order st1 ''upwork_20250101_100000'' + 1 + int i))"
proof -
  have a: "''upwork_20250101_100000'' \<in> set (map session_id (chat_sessions one_scrape_store))"
    by (simp add: one_scrape_store_sessions)
  have b: "complete_batch two_message_batch"
    by (simp add: complete_batch_def complete_message_def two_message_batch_def example_message_def)
  have c: "complete_batch overlapping_batch"
    by (simp add: complete_batch_def complete_message_def overlapping_batch_def example_message_def)
  from overlapping_batches_union [OF built_one_scrape_store a b c, of 30 40]
    built_one_scrape_store a b c
  show ?thesis by (intro conjI)
qed

section \<open>The example stores, row by row\<close>

lemma parsed_morning:
  "parse_html_file ''upwork'' morning_elements =
     [\<lparr> r_text = Some ''hello'', r_sender = Some ''Maria'', r_timestamp = Some ''09:00'',
        r_sender_type = Some ''incoming'', r_message_id = Some ''upwork_11_09:00'',
        r_order = Some 0 \<rparr>,
      \<lparr> r_text = Some ''hi Maria'', r_sender = Some ''me'', r_timestamp = Some ''09:01'',
        r_sender_type = Some ''outgoing'', r_message_id = Some ''upwork_12_09:01'',
        r_order = Some 0 \<rparr>]"
  by (simp add: parse_html_file_def morning_elements_def extract_message_data_def
      map_filter_simps str_int_def str_nat.simps digit_char_def)

lemma parsed_later:
  "parse_html_file ''upwork'' later_elements =
     [\<lparr> r_text = Some ''hello'', r_sender = Some ''Maria'', r_timestamp = Some ''09:00'',
        r_sender_type = Some ''incoming'', r_message_id = Some ''upwork_21_09:00'',
        r_order = Some 0 \<rparr>,
      \<lparr> r_text = Some ''are you free?'', r_sender = Some ''Maria'', r_timestamp = Some ''09:05'',
        r_sender_type = Some ''incoming'', r_message_id = Some ''upwork_22_09:05'',
        r_order = Some 0 \<rparr>,
      \<lparr> r_text = Some ''see you at noon'', r_sender = Some ''Maria'', r_timestamp = Some ''09:06'',
        r_sender_type = Some ''incoming'', r_message_id = Some ''upwork_23_09:06'',
        r_order = Some 0 \<rparr>]"
  by (simp add: parse_html_file_def later_elements_def extract_message_data_def
      map_filter_simps str_int_def str_nat.simps digit_char_def)

lemma one_scrape_store_messages:
  "chat_messages one_scrape_store =
     [\<lparr> m_session_id = ''upwork_20250101_100000'', message_id = ''upwork_11_09:00'',
        sender = ''Maria'', sender_type = ''incoming'', message_text = ''hello'',
        timestamp = numeric_affinity ''09:00'', message_order = 1, scraped_at = 10 \<rparr>,
      \<lparr> m_session_id = ''upwork_20250101_100000'', message_id = ''upwork_12_09:01'',
        sender = ''me'', sender_type = ''outgoing'', message_text = ''hi Maria'',
        timestamp = numeric_affinity ''09:01'', message_order = 2, scraped_at = 10 \<rparr>]"
  unfolding one_scrape_store_def save_to_database_None parsed_morning
  by (simp add: insert_message_def)

lemma two_scrape_store_messages:
  "chat_messages two_scrape_store =
     [\<lparr> m_session_id = ''upwork_20250101_100000'', message_id = ''upwork_11_09:00'',
        sender = ''Maria'', sender_type = ''incoming'', message_text = ''hello'',
        timestamp = numeric_affinity ''09:00'', message_order = 1, scraped_at = 10 \<rparr>,
      \<lparr> m_session_id = ''upwork_20250101_100000'', message_id = ''upwork_12_09:01'',
        sender = ''me'', sender_type = ''outgoing'', message_text = ''hi Maria'',
        timestamp = numeric_affinity ''09:01'', message_order = 2, scraped_at = 10 \<rparr>,
      \<lparr> m_session_id = ''upwork_20250101_101000'', message_id = ''upwork_21_09:00'',
        sender = ''Maria'', sender_type = ''incoming'', message_text = ''hello'',
        timestamp = numeric_affinity ''09:00'', message_order = 1, scraped_at = 20 \<rparr>,
      \<lparr> m_session_id = ''upwork_20250101_101000'', message_id = ''upwork_22_09:05'',
        sender = ''Maria'', sender_type = ''incoming'', message_text = ''are you free?'',
        timestamp = numeric_affinity ''09:05'', message_order = 2, scraped_at = 20 \<rparr>,
      \<lparr> m_session_id = ''upwork_20250101_101000'', message_id = ''upwork_23_09:06'',
        sender = ''Maria'', sender_type = ''incoming'', message_text = ''see you at noon'',
        timestamp = numeric_affinity ''09:06'', message_order = 3, scraped_at = 20 \<rparr>]"
  unfolding two_scrape_store_def save_to_database_None parsed_later
  by (simp add: insert_message_def one_scrape_store_messages)

lemma same_second_store_messages:
  "chat_messages same_second_store =
     [\<lparr> m_session_id = ''upwork_20250101_100000'', message_id = ''upwork_11_09:00'',
        sender = ''Maria'', sender_type = ''incoming'', message_text = ''hello'',
        timestamp = numeric_affinity ''09:00'', message_order = 1, scraped_at = 10 \<rparr>,
      \<lparr> m_session_id = ''upwork_20250101_100000'', message_id = ''upwork_12_09:01'',
        sender = ''me'', sender_type = ''outgoing'', message_text = ''hi Maria'',
        timestamp = numeric_affinity ''09:01'', message_order = 2, scraped_at = 10 \<rparr>,
      \<lparr> m_session_id = ''upwork_20250101_100000'', message_id = ''upwork_21_09:00'',
        sender = ''Maria'', sender_type = ''incoming'', message_text = ''hello'',
        timestamp = numeric_affinity ''09:00'', message_order = 1, scraped_at = 10 \<rparr>,
      \<lparr> m_session_id = ''upwork_20250101_100000'', message_id = ''upwork_22_09:05'',
        sender = ''Maria'', sender_type = ''incoming'', message_text = ''are you free?'',
        timestamp = numeric_affinity ''09:05'', message_order = 2, scraped_at = 10 \<rparr>,
      \<lparr> m_session_id = ''upwork_20250101_100000'', message_id = ''upwork_23_09:06'',
        sender = ''Maria'', sender_type = ''incoming'', message_text = ''see you at noon'',
        timestamp = numeric_affinity ''09:06'', message_order = 3, scraped_at = 10 \<rparr>]"
  unfolding same_second_store_def save_to_database_None parsed_later
  by (simp add: insert_message_def one_scrape_store_messages)

lemma same_second_store_sessions:
  "map session_id (chat_sessions same_second_store) = [''upwork_20250101_100000'']"
  unfolding same_second_store_def save_to_database_sessions one_scrape_store_sessions by simp

lemma store_by_tables:
  assumes "chat_sessions st = sessions" and "chat_messages st = messages"
  shows "st = \<lparr> chat_sessions = sessions, chat_messages = messages \<rparr>"
  using assms by (cases st) simp

lemmas two_scrape_store_value =
  store_by_tables [OF two_scrape_store_sessions two_scrape_store_messages]

lemma two_scrape_store_reconciled:
  "fst (cleanup_duplicate_chat_sessions two_scrape_store 30) =
     \<lparr> chat_sessions =
         [\<lparr> session_id = ''upwork_20250101_101000'', chat_platform = Some ''upwork'',
            chat_title = Some ''Upwork Chat Session'', participant_name = Some ''Unknown'',
            chat_url = Some [], started_at = 20, last_activity = 30, total_messages = 4,
            status = Some ''active'', phase = None, phase_confidence = None,
            phase_updated_at = None, created_at = 20 \<rparr>],
       chat_messages =
         [\<lparr> m_session_id = ''upwork_20250101_101000'', message_id = ''upwork_21_09:00'',
            sender = ''Maria'', sender_type = ''incoming'', message_text = ''hello'',
            timestamp = numeric_affinity ''09:00'', message_order = 1, scraped_at = 20 \<rparr>,
          \<lparr> m_session_id = ''upwork_20250101_101000'', message_id = ''upwork_22_09:05'',
            sender = ''Maria'', sender_type = ''incoming'', message_text = ''are you free?'',
            timestamp = numeric_affinity ''09:05'', message_order = 2, scraped_at = 20 \<rparr>,
          \<lparr> m_session_id = ''upwork_20250101_101000'', message_id = ''upwork_23_09:06'',
            sender = ''Maria'', sender_type = ''incoming'', message_text = ''see you at noon'',
            timestamp = numeric_affinity ''09:06'', message_order = 3, scraped_at = 20 \<rparr>,
          \<lparr> m_session_id = ''upwork_20250101_101000'',
            message_id = ''upwork_20250101_101000_4'',
            sender = ''me'', sender_type = ''outgoing'', message_text = ''hi Maria'',
            timestamp = numeric_affinity ''09:01'', message_order = 4, scraped_at = 10 \<rparr>] \<rparr>"
  unfolding two_scrape_store_value
  by (simp add: cleanup_duplicate_chat_sessions_def find_duplicate_chat_sessions_def
      group_row_def group_members_def groupable_sessions_def fingerprint_of_def
      by_size_then_recency_def merge_chat_sessions_def delete_session_def
      max_message_order_def session_messages_def message_exists_def insert_message_def
      derived_message_id_def str_int_def str_nat.simps digit_char_def refresh_rollup_def
      message_count_def Let_def)

section \<open>Groups as the specification words them\<close>

lemma group_members_sharing: "group_members st fp = sessions_sharing st fp"
  unfolding group_members_def groupable_sessions_def sessions_sharing_def fingerprint_of_def
  by (simp add: conj_commute conj_left_commute)

lemma no_duplicate_groups_iff:
  "no_duplicate_groups st \<longleftrightarrow> find_duplicate_chat_sessions st = []"
  unfolding find_duplicate_chat_sessions_Nil
proof
  assume none: "no_duplicate_groups st"
  show "\<forall>fp. length (group_members st fp) \<le> 1"
  proof
    fix fp
    show "length (group_members st fp) \<le> 1"
    proof (cases "group_members st fp")
      case Nil
      then show ?thesis by simp
    next
      case (Cons s rest)
      then have "s \<in> set (group_members st fp)" by simp
      then have "s \<in> set (chat_sessions st)" and "fingerprint_of s = fp"
        using group_members_subset group_members_fingerprint by blast+
      with none show ?thesis
        by (auto simp add: no_duplicate_groups_def list_all_iff group_members_sharing
            fingerprint_of_def)
    qed
  qed
next
  assume "\<forall>fp. length (group_members st fp) \<le> 1"
  then show "no_duplicate_groups st"
    by (simp add: no_duplicate_groups_def list_all_iff group_members_sharing)
qed

lemma duplicate_group_found:
  assumes "length (sessions_sharing st fp) \<ge> 2"
  shows "group_row st fp \<in> set (find_duplicate_chat_sessions st)"
proof -
  from assms have more: "length (group_members st fp) > 1"
    by (simp add: group_members_sharing)
  then obtain s where "s \<in> set (group_members st fp)"
    by (cases "group_members st fp") auto
  then have "s \<in> set (groupable_sessions st)" and "fingerprint_of s = fp"
    by (simp_all add: group_members_def)
  then have "fp \<in> set (map fingerprint_of (groupable_sessions st))" by auto
  with more show ?thesis
    unfolding find_duplicate_chat_sessions_set by blast
qed

lemma built_keys_unused:
  assumes "built st" and "g \<in> set (find_duplicate_chat_sessions st)"
  shows "keys_unused st (keep_session g)"
proof -
  note wf = built_well_formed [OF assms(1)]
  from duplicate_group_footprint_set [OF well_formed_comma_free [OF wf] assms(2)]
  have "keep_session g \<in> session_id ` set (group_members st (dg_fingerprint g))"
    by auto
  with group_members_subset have "keep_session g \<in> set (map session_id (chat_sessions st))"
    by fastforce
  from well_formed_made_id [OF wf this] show ?thesis
    by (rule well_formed_keys_unused [OF wf])
qed

section \<open>Reconciliation convergence\<close>

text \<open>
  C3. Take a store the code builds and a (platform, title, participant) tuple that two or
  more of its sessions with non-null platform and participant share. One reconciliation
  pass leaves exactly one session with that tuple: the member that no other member beats
  on message count, nor, at equal count, on last activity, with its count recomputed and
  its last activity set to the time of the pass. Its message rows are the rows it had
  followed by new rows whose dedup keys are pairwise distinct and new to it; its set of
  dedup keys is the union of the members' sets; every new row carries the sender, role,
  text, conversational timestamp and ingestion timestamp of a row of another member. The
  other members have no message rows and no session row left.
\<close>

theorem reconciliation_converges:
  assumes built: "built st" and many: "length (sessions_sharing st fp) \<ge> 2"
  shows "\<exists>k new.
      k \<in> set (sessions_sharing st fp)
      \<and> (\<forall>m \<in> set (sessions_sharing st fp).
            total_messages m < total_messages k
            \<or> (total_messages m = total_messages k \<and> last_activity m \<le> last_activity k))
      \<and> sessions_sharing (fst (cleanup_duplicate_chat_sessions st now)) fp
          = [k\<lparr>last_activity := now,
               total_messages :=
                 message_count (fst (cleanup_duplicate_chat_sessions st now)) (session_id k)\<rparr>]
      \<and> session_messages (fst (cleanup_duplicate_chat_sessions st now)) (session_id k)
          = session_messages st (session_id k) @ new
      \<and> distinct (map dedup_key new)
      \<and> set (map dedup_key new) \<inter> set (dedup_keys st (session_id k)) = {}
      \<and> set (dedup_keys (fst (cleanup_duplicate_chat_sessions st now)) (session_id k))
          = (\<Union>m \<in> set (sessions_sharing st fp). set (dedup_keys st (session_id m)))
      \<and> (\<forall>row \<in> set new. \<exists>m \<in> set (sessions_sharing st fp).
            session_id m \<noteq> session_id k
            \<and> (\<exists>msg \<in> set (session_messages st (session_id m)). same_content msg row))
      \<and> (\<forall>m \<in> set (sessions_sharing st fp). session_id m \<noteq> session_id k \<longrightarrow>
            session_messages (fst (cleanup_duplicate_chat_sessions st now)) (session_id m) = []
            \<and> session_rows (fst (cleanup_duplicate_chat_sessions st now)) (session_id m) = [])"
    (is "\<exists>k new. ?converged k new")
proof -
  let ?members = "sessions_sharing st fp"
  let ?st' = "fst (cleanup_duplicate_chat_sessions st now)"
  let ?g = "group_row st fp"
  note wf = built_well_formed [OF built]
  note uniq = well_formed_unique [OF wf] and commas = well_formed_comma_free [OF wf]
  have g: "?g \<in> set (find_duplicate_chat_sessions st)"
    using many by (rule duplicate_group_found)
  have fp: "dg_fingerprint ?g = fp" by (simp add: group_row_def Let_def)
  have unused: "\<forall>h \<in> set (find_duplicate_chat_sessions st). keys_unused st (keep_session h)"
    using built by (simp add: built_keys_unused)
  note group = reconcile_duplicate_group [OF uniq commas unused g, of now,
      unfolded fp group_members_sharing]
  from group obtain k new where
    more: "length ?members > 1" and
    k_in: "k \<in> set ?members" and k_id: "session_id k = keep_session ?g"
    and best: "\<forall>m \<in> set ?members. total_messages m < total_messages k
           \<or> (total_messages m = total_messages k \<and> last_activity m \<le> last_activity k)"
    and removes: "set (remove_sessions ?g) = session_id ` set ?members - {keep_session ?g}"
    and survivor: "sessions_sharing ?st' fp
        = [k\<lparr>last_activity := now, total_messages := message_count ?st' (keep_session ?g)\<rparr>]"
    and app: "session_messages ?st' (keep_session ?g) = session_messages st (keep_session ?g) @ new"
    and dist: "distinct (map dedup_key new)"
    and disj: "set (map dedup_key new) \<inter> set (dedup_keys st (keep_session ?g)) = {}"
    and union: "set (dedup_keys ?st' (keep_session ?g))
        = (\<Union>m \<in> set ?members. set (dedup_keys st (session_id m)))"
    and content: "\<forall>row \<in> set new. \<exists>r \<in> set (remove_sessions ?g).
        \<exists>msg \<in> set (session_messages st r). same_content msg row"
    and removed: "\<forall>r \<in> set (remove_sessions ?g).
        session_messages ?st' r = [] \<and> session_rows ?st' r = []"
    by (elim exE conjE) (rule that; assumption)
  have c: "\<forall>row \<in> set new. \<exists>m \<in> set ?members. session_id m \<noteq> session_id k
      \<and> (\<exists>msg \<in> set (session_messages st (session_id m)). same_content msg row)"
  proof
    fix row assume "row \<in> set new"
    with content obtain r msg where r: "r \<in> set (remove_sessions ?g)"
      and msg: "msg \<in> set (session_messages st r)" "same_content msg row"
      by blast
    from r removes obtain m where "m \<in> set ?members" "session_id m = r" "r \<noteq> keep_session ?g"
      by auto
    with msg k_id show "\<exists>m \<in> set ?members. session_id m \<noteq> session_id k
      \<and> (\<exists>msg \<in> set (session_messages st (session_id m)). same_content msg row)"
      by auto
  qed
  have r: "\<forall>m \<in> set ?members. session_id m \<noteq> session_id k \<longrightarrow>
      session_messages ?st' (session_id m) = [] \<and> session_rows ?st' (session_id m) = []"
  proof (intro ballI impI)
    fix m assume "m \<in> set ?members" "session_id m \<noteq> session_id k"
    with removes k_id have "session_id m \<in> set (remove_sessions ?g)" by auto
    with removed show "session_messages ?st' (session_id m) = []
        \<and> session_rows ?st' (session_id m) = []"
      by blast
  qed
  from k_in best survivor [folded k_id] app [folded k_id] dist disj [folded k_id]
    union [folded k_id] c r
  have "?converged k new" by (intro conjI)
  then show ?thesis by (intro exI)
qed

theorem reconciliation_converges_witness:
  "built two_scrape_store
   \<and> length (sessions_sharing two_scrape_store upwork_fingerprint) \<ge> 2
   \<and> map session_id
       (sessions_sharing (fst (cleanup_duplicate_chat_sessions two_scrape_store 30)) upwork_fingerprint)
       = [''upwork_20250101_101000'']
   \<and> map message_text
       (session_messages (fst (cleanup_duplicate_chat_sessions two_scrape_store 30))
          ''upwork_20250101_101000'')
       = [''hello'', ''are you free?'', ''see you at noon'', ''hi Maria'']
   \<and> (\<exists>k new.
      k \<in> set (sessions_sharing two_scrape_store upwork_fingerprint)
      \<and> (\<forall>m \<in> set (sessions_sharing two_scrape_store upwork_fingerprint).
            total_messages m < total_messages k
            \<or> (total_messages m = total_messages k \<and> last_activity m \<le> last_activity k))
      \<and> sessions_sharing (fst (cleanup_duplicate_chat_sessions two_scrape_store 30)) upwork_fingerprint
          = [k\<lparr>last_activity := 30,
               total_messages :=
                 message_count (fst (cleanup_duplicate_chat_sessions two_scrape_store 30))
                   (session_id k)\<rparr>]
      \<and> session_messages (fst (cleanup_duplicate_chat_sessions two_scrape_store 30)) (session_id k)
          = session_messages two_scrape_store (session_id k) @ new
      \<and> distinct (map dedup_key new)
      \<and> set (map dedup_key new) \<inter> set (dedup_keys two_scrape_store (session_id k)) = {}
      \<and> set (dedup_keys (fst (cleanup_duplicate_chat_sessions two_scrape_store 30)) (session_id k))
          = (\<Union>m \<in> set (sessions_sharing two_scrape_store upwork_fingerprint).
               set (dedup_keys two_scrape_store (session_id m)))
      \<and> (\<forall>row \<in> set new. \<exists>m \<in> set (sessions_sharing two_scrape_store upwork_fingerprint).
            session_id m \<noteq> session_id k
            \<and> (\<exists>msg \<in> set (session_messages two_scrape_store (session_id m)).
                  same_content msg row))
      \<and> (\<forall>m \<in> set (sessions_sharing two_scrape_store upwork_fingerprint).
            session_id m \<noteq> session_id k \<longrightarrow>
            session_messages (fst (cleanup_duplicate_chat_sessions two_scrape_store 30))
              (session_id m) = []
            \<and> session_rows (fst (cleanup_duplicate_chat_sessions two_scrape_store 30))
                (session_id m) = []))"
proof -
  have a: "length (sessions_sharing two_scrape_store upwork_fingerprint) \<ge> 2"
    by (simp add: sessions_sharing_def upwork_fingerprint_def two_scrape_store_sessions)
  have b: "map session_id
       (sessions_sharing (fst (cleanup_duplicate_chat_sessions two_scrape_store 30)) upwork_fingerprint)
       = [''upwork_20250101_101000'']"
    unfolding two_scrape_store_reconciled
    by (simp add: sessions_sharing_def upwork_fingerprint_def)
  have c: "map message_text
       (session_messages (fst (cleanup_duplicate_chat_sessions two_scrape_store 30))
          ''upwork_20250101_101000'')
       = [''hello'', ''are you free?'', ''see you at noon'', ''hi Maria'']"
    unfolding two_scrape_store_reconciled by (simp add: session_messages_def)
  from reconciliation_converges [OF built_two_scrape_store a, of 30] built_two_scrape_store a b c
  show ?thesis by (intro conjI)
qed

section \<open>A second reconciliation pass\<close>

text \<open>
  C4. A pass over a store without a duplicate group changes nothing and reports zeros and
  success. After a pass over a store that the code builds no (platform, title,
  participant) tuple is shared by two sessions, so a second pass changes nothing and
  reports zeros and success.
\<close>

theorem reconciliation_is_idempotent:
  assumes "built st"
  shows "(no_duplicate_groups st \<longrightarrow> cleanup_duplicate_chat_sessions st now = (st, nothing_to_do))
         \<and> no_duplicate_groups (fst (cleanup_duplicate_chat_sessions st now))
         \<and> cleanup_duplicate_chat_sessions (fst (cleanup_duplicate_chat_sessions st now)) later
             = (fst (cleanup_duplicate_chat_sessions st now), nothing_to_do)"
proof -
  note commas = well_formed_comma_free [OF built_well_formed [OF assms]]
  have "no_duplicate_groups st \<longrightarrow> cleanup_duplicate_chat_sessions st now = (st, nothing_to_do)"
    unfolding no_duplicate_groups_iff nothing_to_do_def
    using cleanup_without_duplicates by blast
  moreover have "no_duplicate_groups (fst (cleanup_duplicate_chat_sessions st now))"
    unfolding no_duplicate_groups_iff by (rule cleanup_leaves_no_duplicates [OF commas])
  moreover have "cleanup_duplicate_chat_sessions (fst (cleanup_duplicate_chat_sessions st now)) later
             = (fst (cleanup_duplicate_chat_sessions st now), nothing_to_do)"
    unfolding nothing_to_do_def by (rule second_pass_changes_nothing [OF commas])
  ultimately show ?thesis by (intro conjI)
qed

theorem reconciliation_is_idempotent_witness:
  "built two_scrape_store \<and> \<not> no_duplicate_groups two_scrape_store
   \<and> built one_scrape_store \<and> no_duplicate_groups one_scrape_store
   \<and> cleanup_duplicate_chat_sessions one_scrape_store 30 = (one_scrape_store, nothing_to_do)
   \<and> no_duplicate_groups (fst (cleanup_duplicate_chat_sessions two_scrape_store 30))
   \<and> cleanup_duplicate_chat_sessions (fst (cleanup_duplicate_chat_sessions two_scrape_store 30)) 40
       = (fst (cleanup_duplicate_chat_sessions two_scrape_store 30), nothing_to_do)"
proof -
  have a: "\<not> no_duplicate_groups two_scrape_store"
    by (simp add: no_duplicate_groups_def sessions_sharing_def two_scrape_store_sessions)
  have b: "no_duplicate_groups one_scrape_store"
    by (simp add: no_duplicate_groups_def sessions_sharing_def one_scrape_store_sessions)
  from reconciliation_is_idempotent [OF built_one_scrape_store, of 30] b
  have c: "cleanup_duplicate_chat_sessions one_scrape_store 30 = (one_scrape_store, nothing_to_do)"
    by blast
  from reconciliation_is_idempotent [OF built_two_scrape_store, of 30 40]
  have d: "no_duplicate_groups (fst (cleanup_duplicate_chat_sessions two_scrape_store 30))"
    and e: "cleanup_duplicate_chat_sessions (fst (cleanup_duplicate_chat_sessions two_scrape_store 30)) 40
       = (fst (cleanup_duplicate_chat_sessions two_scrape_store 30), nothing_to_do)"
    by blast+
  from built_two_scrape_store a built_one_scrape_store b c d e show ?thesis by (intro conjI)
qed

section \<open>Order positions after two session creations\<close>

text \<open>
  C5 at a failing input. Two Upwork pages are saved within one second, so
  \<open>save_to_database\<close> gives both the session id \<open>upwork_20250101_100000\<close>. The second call
  replaces the session row and numbers its three messages from 1 again, next to the two
  rows the session holds: the session's order positions are 1, 2, 1, 2, 3 in the order the
  rows were appended. The store is one the code builds. \<open>update_existing_session\<close> and
  \<open>merge_chat_sessions\<close> number from the session's maximum order and keep positions that
  rise (\<open>update_existing_session_order\<close>, \<open>merge_chat_sessions_order\<close>, \<open>cleanup_order\<close>).
\<close>

theorem save_to_database_restarts_order:
  "built same_second_store
   \<and> map session_id (chat_sessions same_second_store) = [''upwork_20250101_100000'']
   \<and> map message_text (session_messages same_second_store ''upwork_20250101_100000'')
       = [''hello'', ''hi Maria'', ''hello'', ''are you free?'', ''see you at noon'']
   \<and> map message_order (session_messages same_second_store ''upwork_20250101_100000'')
       = [1, 2, 1, 2, 3]
   \<and> \<not> order_monotone same_second_store"
proof -
  have b: "map message_text (session_messages same_second_store ''upwork_20250101_100000'')
       = [''hello'', ''hi Maria'', ''hello'', ''are you free?'', ''see you at noon'']"
    by (simp add: session_messages_def same_second_store_messages)
  have c: "map message_order (session_messages same_second_store ''upwork_20250101_100000'')
       = [1, 2, 1, 2, 3]"
    by (simp add: session_messages_def same_second_store_messages)
  have d: "\<not> order_monotone same_second_store"
    by (simp add: order_monotone_def session_messages_def same_second_store_messages)
  from built_same_second_store same_second_store_sessions b c d show ?thesis by (intro conjI)
qed

end
